theory Spec2Isabelle
  imports Main
begin

section \<open>Strings\<close>

text \<open>
  JavaScript strings are modelled as \<^typ>\<open>string\<close>; one \<^typ>\<open>char\<close> stands for one
  code unit, so \<open>length\<close> is JavaScript's \<open>.length\<close> on Latin-1 text.
\<close>

definition is_space :: "char \<Rightarrow> bool" where
  \<comment> \<open>the code units below 256 that \<open>String.prototype.trim\<close> removes\<close>
  "is_space c = (of_char c \<in> set [9, 10, 11, 12, 13, 32, 160 :: nat])"

definition trim :: "string \<Rightarrow> string" where
  "trim s = rev (dropWhile is_space (rev (dropWhile is_space s)))"

fun startsWith :: "string \<Rightarrow> string \<Rightarrow> bool" where
  "startsWith s [] = True"
| "startsWith [] (p # ps) = False"
| "startsWith (c # cs) (p # ps) = (c = p \<and> startsWith cs ps)"

fun str_includes :: "string \<Rightarrow> string \<Rightarrow> bool" where
  "str_includes [] sub = (sub = [])"
| "str_includes (c # cs) sub = (startsWith (c # cs) sub \<or> str_includes cs sub)"

definition is_hex :: "char \<Rightarrow> bool" where
  \<comment> \<open>the character class \<open>[a-f0-9]\<close> under the flag \<open>i\<close>\<close>
  "is_hex c = (c \<in> set ''0123456789abcdefABCDEF'')"

definition isValidHash :: "string \<Rightarrow> bool" where
  \<comment> \<open>\<open>/^[a-f0-9]{64}$/i.test(entityHash.trim())\<close>\<close>
  "isValidHash entityHash = (let t = trim entityHash in length t = 64 \<and> list_all is_hex t)"

definition last_segment :: "string \<Rightarrow> string" where
  \<comment> \<open>\<open>path.split('/').pop()\<close>: what follows the last slash\<close>
  "last_segment p = rev (takeWhile (\<lambda>c. c \<noteq> CHR ''/'') (rev p))"

definition extractHash :: "string \<Rightarrow> string" where
  "extractHash p = (if p = [] then [] else last_segment p)"

definition normalizeSecretHash :: "string \<Rightarrow> string" where
  "normalizeSecretHash secretInput =
     (if secretInput = [] then []
      else let trimmed = trim secretInput
           in if startsWith trimmed ''secrets/'' then drop 8 trimmed else trimmed)"

definition strip_entities_prefix :: "string \<Rightarrow> string" where
  \<comment> \<open>\<open>path.replace(/^entities\//, '')\<close>\<close>
  "strip_entities_prefix p = (if startsWith p ''entities/'' then drop 9 p else p)"

section \<open>Error codes and exceptions\<close>

datatype error_code =
    INVALID_SECRET
  | USED_SECRET
  | INVALID_REQUEST
  | INVALID_CREDENTIALS
  | INVALID_TOKEN
  | ANCESTOR_NOT_FOUND
  | USERNAME_EXISTS
  | PIONEER_CREATION_FAILED
  | PIONEER_SECRET_NOT_FOUND
  | ENTITY_RETRIEVAL_FAILED
  | PIONEER_RETRIEVAL_FAILED
  | DATABASE_ERROR

fun code_number :: "error_code \<Rightarrow> nat" where
  "code_number INVALID_SECRET = 40100"
| "code_number USED_SECRET = 40101"
| "code_number INVALID_REQUEST = 40102"
| "code_number INVALID_CREDENTIALS = 40103"
| "code_number INVALID_TOKEN = 40104"
| "code_number ANCESTOR_NOT_FOUND = 40105"
| "code_number USERNAME_EXISTS = 40106"
| "code_number PIONEER_CREATION_FAILED = 50001"
| "code_number PIONEER_SECRET_NOT_FOUND = 50002"
| "code_number ENTITY_RETRIEVAL_FAILED = 50003"
| "code_number PIONEER_RETRIEVAL_FAILED = 50004"
| "code_number DATABASE_ERROR = 50005"

text \<open>A call either throws an \<open>Error\<close> (kept with its message) or returns.\<close>

datatype 'a outcome = Throw string | Ret 'a

section \<open>The relational store (models/Entity, models/Secret, models/Login)\<close>

record entity_row =
  e_id :: nat
  e_path :: string
  e_ancestor_id :: "nat option"

record secret_row =
  s_id :: nat
  s_path :: string
  s_owner_id :: nat
  s_owner_type_id :: nat
  s_used_at :: "nat option"

record login_row =
  l_id :: string
  l_entity_id :: nat
  l_password :: string
  l_secret :: "string option"

text \<open>
  The three tables, in insertion order, and the two auto-increment counters (the last id
  handed out).
\<close>

record database =
  entity_tbl :: "entity_row list"
  secret_tbl :: "secret_row list"
  login_tbl :: "login_row list"
  entity_seq :: nat
  secret_seq :: nat

definition rows :: "database \<Rightarrow> entity_row list \<times> secret_row list \<times> login_row list" where
  "rows d = (entity_tbl d, secret_tbl d, login_tbl d)"

definition OwnerType_ENTITY :: nat where
  "OwnerType_ENTITY = 1"

definition Entity_findByPk :: "database \<Rightarrow> nat \<Rightarrow> entity_row option" where
  "Entity_findByPk d i = find (\<lambda>r. e_id r = i) (entity_tbl d)"

definition Entity_findOne_path :: "database \<Rightarrow> string \<Rightarrow> entity_row option" where
  \<comment> \<open>\<open>Entity.findOne({ where: { path } })\<close>\<close>
  "Entity_findOne_path d p = find (\<lambda>r. e_path r = p) (entity_tbl d)"

fun least_id :: "entity_row \<Rightarrow> entity_row list \<Rightarrow> entity_row" where
  "least_id r [] = r"
| "least_id r (x # xs) = least_id (if e_id x < e_id r then x else r) xs"

definition Entity_findPioneer :: "database \<Rightarrow> entity_row option" where
  \<comment> \<open>\<open>findOne({ where: { ancestor_id: null }, order: [['id', 'ASC']] })\<close>\<close>
  "Entity_findPioneer d =
     (case filter (\<lambda>r. e_ancestor_id r = None) (entity_tbl d) of
        [] \<Rightarrow> None
      | r # rs \<Rightarrow> Some (least_id r rs))"

definition Entity_create :: "string \<Rightarrow> nat option \<Rightarrow> database \<Rightarrow> entity_row \<times> database" where
  "Entity_create p a d =
     (let r = \<lparr>e_id = Suc (entity_seq d), e_path = p, e_ancestor_id = a\<rparr>
      in (r, d\<lparr>entity_tbl := entity_tbl d @ [r], entity_seq := Suc (entity_seq d)\<rparr>))"

definition Secret_findByPath :: "database \<Rightarrow> string \<Rightarrow> secret_row option" where
  "Secret_findByPath d p = find (\<lambda>r. s_path r = p) (secret_tbl d)"

definition Secret_create :: "string \<Rightarrow> nat \<Rightarrow> nat \<Rightarrow> nat option \<Rightarrow> database \<Rightarrow> secret_row \<times> database" where
  "Secret_create p owner otype u d =
     (let r = \<lparr>s_id = Suc (secret_seq d), s_path = p, s_owner_id = owner,
                s_owner_type_id = otype, s_used_at = u\<rparr>
      in (r, d\<lparr>secret_tbl := secret_tbl d @ [r], secret_seq := Suc (secret_seq d)\<rparr>))"

definition Secret_save :: "secret_row \<Rightarrow> database \<Rightarrow> database" where
  \<comment> \<open>\<open>UPDATE secret SET ... WHERE id = row.id\<close>\<close>
  "Secret_save r d = d\<lparr>secret_tbl := map (\<lambda>x. if s_id x = s_id r then r else x) (secret_tbl d)\<rparr>"

definition Login_usernameExists :: "database \<Rightarrow> string \<Rightarrow> bool" where
  "Login_usernameExists d username = (0 < length (filter (\<lambda>r. l_id r = username) (login_tbl d)))"

definition Login_findOne_entity :: "database \<Rightarrow> nat \<Rightarrow> login_row option" where
  \<comment> \<open>\<open>Login.findOne({ where: { entity_id } })\<close>\<close>
  "Login_findOne_entity d i = find (\<lambda>r. l_entity_id r = i) (login_tbl d)"

definition Login_create :: "login_row \<Rightarrow> database \<Rightarrow> database outcome" where
  \<comment> \<open>\<open>login.id\<close> is the primary key: a second row with the same id is refused\<close>
  "Login_create r d =
     (if Login_usernameExists d (l_id r) then Throw ''Validation error''
      else Ret (d\<lparr>login_tbl := login_tbl d @ [r]\<rparr>))"

text \<open>
  The statements whose failure the service handles: the writes, and the statements of
  the registration transaction. A run is given the list of those that fail.
\<close>

datatype db_op =
    InitEntityCreate
  | InitSecretFind
  | InitSecretCreate
  | MarkAsUsedSave
  | TxnBegin
  | TxnEntityCreate
  | TxnSecretFind
  | TxnSecretSave
  | TxnSecretCreate
  | TxnLoginCreate
  | TxnCommit

section \<open>The PathChain library and its wrapper (utils/pathchain.js)\<close>

text \<open>
  The library is an npm dependency and not part of the sources, so it is a parameter: a
  record of its entry points over an abstract ledger state \<open>'l\<close> (the \<open>files/\<close>
  directory). Its documented return types are kept: \<open>makePioneer\<close> and \<open>makeEntity\<close>
  return a string (the empty string also stands for \<open>null\<close>/\<open>undefined\<close>, which the
  callers test with \<open>!x\<close> alike), \<open>isSecretUsed\<close> a boolean or a string, the getters an
  object or a string. The getters and \<open>isSecretUsed\<close> read the ledger; \<open>makePioneer\<close>,
  \<open>makeEntity\<close> and \<open>useSecret\<close> may write it.
\<close>

record pc_object =
  tag :: string
  author :: string
  ancestor :: string
  used :: bool

datatype obj_res = OObj pc_object | OStr string | ONull

datatype used_res = UBool bool | UStr string | UOther

record 'l pathchain =
  pc_makePioneer :: "'l \<Rightarrow> string outcome \<times> 'l"
  pc_getPioneerObj :: "'l \<Rightarrow> string \<Rightarrow> obj_res outcome"
  pc_makeEntity :: "'l \<Rightarrow> string \<Rightarrow> string outcome \<times> 'l"
  pc_getEntityObj :: "'l \<Rightarrow> string \<Rightarrow> string \<Rightarrow> obj_res outcome"
  pc_getSecretObj :: "'l \<Rightarrow> string \<Rightarrow> string \<Rightarrow> obj_res outcome"
  pc_isSecretUsed :: "'l \<Rightarrow> string \<Rightarrow> used_res outcome"
  pc_useSecret :: "'l \<Rightarrow> string \<Rightarrow> obj_res outcome \<times> 'l"
  pc_getObj :: "'l \<Rightarrow> string \<Rightarrow> obj_res outcome"

text \<open>
  What a run depends on besides the stores: the library (\<open>None\<close> when \<open>require\<close> failed),
  the listing of \<open>files/{hash}/secrets\<close> (\<open>None\<close> when the directory does not exist), the
  failing database statements, the clock, and the two opaque helpers of utils/crypto and
  utils/jwt.
\<close>

record 'l env =
  pathchain :: "'l pathchain option"
  fs_secretFiles :: "'l \<Rightarrow> string \<Rightarrow> string list option outcome"
  faults :: "db_op list"
  now :: nat
  hashPassword :: "string \<Rightarrow> string"
  generateToken :: "nat \<Rightarrow> string \<Rightarrow> string \<Rightarrow> string"

text \<open>
  Every call that reaches the library, the file system or the transaction manager is
  recorded, in order, in \<open>trace\<close> (bookkeeping of the model, not of the code).
\<close>

datatype event =
    PcMakePioneer
  | PcGetPioneerObj string
  | PcMakeEntity string
  | PcGetEntityObj string string
  | PcGetSecretObj string string
  | PcIsSecretUsed string
  | PcUseSecret string
  | PcGetObj string
  | FsSecretFiles string
  | DbBegin
  | DbCommit
  | DbRollback

record 'l world =
  db :: database
  ledger :: 'l
  trace :: "event list"

definition log :: "event \<Rightarrow> 'l world \<Rightarrow> 'l world" where
  "log e w = w\<lparr>trace := trace w @ [e]\<rparr>"

definition fails :: "'l env \<Rightarrow> db_op \<Rightarrow> bool" where
  "fails env op = (op \<in> set (faults env))"

definition not_available :: string where
  "not_available = ''PathChain library not available''"

definition isAvailable :: "'l env \<Rightarrow> bool" where
  "isAvailable env = (pathchain env \<noteq> None)"

definition createPioneer :: "'l env \<Rightarrow> 'l world \<Rightarrow> string outcome \<times> 'l world" where
  "createPioneer env w =
     (case pathchain env of
        None \<Rightarrow> (Throw not_available, w)
      | Some pc \<Rightarrow> (let (r, l') = pc_makePioneer pc (ledger w)
                   in (r, log PcMakePioneer (w\<lparr>ledger := l'\<rparr>))))"

definition getPioneer :: "'l env \<Rightarrow> string \<Rightarrow> 'l world \<Rightarrow> obj_res outcome \<times> 'l world" where
  "getPioneer env pioneerHash w =
     (case pathchain env of
        None \<Rightarrow> (Throw not_available, w)
      | Some pc \<Rightarrow> (pc_getPioneerObj pc (ledger w) pioneerHash, log (PcGetPioneerObj pioneerHash) w))"

definition createEntity :: "'l env \<Rightarrow> string \<Rightarrow> 'l world \<Rightarrow> string outcome \<times> 'l world" where
  "createEntity env secretHash w =
     (case pathchain env of
        None \<Rightarrow> (Throw not_available, w)
      | Some pc \<Rightarrow> (let (r, l') = pc_makeEntity pc (ledger w) secretHash
                   in (r, log (PcMakeEntity secretHash) (w\<lparr>ledger := l'\<rparr>))))"

definition getEntity :: "'l env \<Rightarrow> string \<Rightarrow> string \<Rightarrow> 'l world \<Rightarrow> obj_res outcome \<times> 'l world" where
  "getEntity env entityHash authorPath w =
     (case pathchain env of
        None \<Rightarrow> (Throw not_available, w)
      | Some pc \<Rightarrow> (pc_getEntityObj pc (ledger w) entityHash authorPath,
                   log (PcGetEntityObj entityHash authorPath) w))"

definition getSecret :: "'l env \<Rightarrow> string \<Rightarrow> string \<Rightarrow> 'l world \<Rightarrow> obj_res outcome \<times> 'l world" where
  "getSecret env secretHash authorPath w =
     (case pathchain env of
        None \<Rightarrow> (Throw not_available, w)
      | Some pc \<Rightarrow> (pc_getSecretObj pc (ledger w) secretHash authorPath,
                   log (PcGetSecretObj secretHash authorPath) w))"

definition isSecretUsed :: "'l env \<Rightarrow> string \<Rightarrow> 'l world \<Rightarrow> used_res outcome \<times> 'l world" where
  "isSecretUsed env secretHash w =
     (case pathchain env of
        None \<Rightarrow> (Throw not_available, w)
      | Some pc \<Rightarrow> (pc_isSecretUsed pc (ledger w) secretHash, log (PcIsSecretUsed secretHash) w))"

definition useSecret :: "'l env \<Rightarrow> string \<Rightarrow> 'l world \<Rightarrow> obj_res outcome \<times> 'l world" where
  "useSecret env secretHash w =
     (case pathchain env of
        None \<Rightarrow> (Throw not_available, w)
      | Some pc \<Rightarrow> (let (r, l') = pc_useSecret pc (ledger w) secretHash
                   in (r, log (PcUseSecret secretHash) (w\<lparr>ledger := l'\<rparr>))))"

definition getObject :: "'l env \<Rightarrow> string \<Rightarrow> 'l world \<Rightarrow> obj_res outcome \<times> 'l world" where
  "getObject env address w =
     (case pathchain env of
        None \<Rightarrow> (Throw not_available, w)
      | Some pc \<Rightarrow> (pc_getObj pc (ledger w) address, log (PcGetObj address) w))"

definition is_object :: "obj_res \<Rightarrow> bool" where
  \<comment> \<open>the negation of \<open>!x || typeof x === 'string'\<close>\<close>
  "is_object x = (case x of OObj _ \<Rightarrow> True | _ \<Rightarrow> False)"

definition is_string :: "obj_res \<Rightarrow> bool" where
  "is_string x = (case x of OStr _ \<Rightarrow> True | _ \<Rightarrow> False)"

section \<open>checkSecret (services/authService.js)\<close>

datatype check_result =
    Checked bool bool   \<comment> \<open>\<open>{ valid, unused, error: null }\<close>\<close>
  | CheckError error_code   \<comment> \<open>\<open>{ valid: false, unused: false, error: { code } }\<close>\<close>

definition checkSecret_lookup :: "'l env \<Rightarrow> string \<Rightarrow> 'l world \<Rightarrow> obj_res \<times> 'l world" where
  \<comment> \<open>lines 864-898: \<open>getSecret\<close>, then \<open>getSecret\<close> with the empty author, then \<open>getObject\<close>\<close>
  "checkSecret_lookup env secretHash w =
     (case getSecret env secretHash [] w of
        (Throw m, w1) \<Rightarrow> (ONull, w1)
      | (Ret o1, w1) \<Rightarrow>
          (let (o2, w2) =
                 (if is_string o1
                  then (case getSecret env secretHash [] w1 of
                          (Throw m, w2) \<Rightarrow> (ONull, w2)
                        | (Ret x, w2) \<Rightarrow> (x, w2))
                  else (o1, w1))
           in if \<not> is_object o2
              then (case getObject env (''secrets/'' @ secretHash) w2 of
                      (Throw m, w3) \<Rightarrow> (o2, w3)
                    | (Ret x, w3) \<Rightarrow> (x, w3))
              else (o2, w2)))"

definition checkSecret :: "'l env \<Rightarrow> string \<Rightarrow> 'l world \<Rightarrow> check_result \<times> 'l world" where
  "checkSecret env secretInput w =
     (if secretInput = [] then (CheckError INVALID_REQUEST, w)
      else let secretHash = normalizeSecretHash secretInput
      in if secretHash = [] then (CheckError INVALID_REQUEST, w)
      else if \<not> isAvailable env then (CheckError DATABASE_ERROR, w)
      else let (r, w1) = isSecretUsed env secretHash w;
               isUsed = (case r of Throw m \<Rightarrow> UStr ''error'' | Ret u \<Rightarrow> u)
      in case isUsed of
           UBool True \<Rightarrow> (Checked True False, w1)
         | _ \<Rightarrow>
           (let (secretObj, w2) = checkSecret_lookup env secretHash w1
            in case secretObj of
                 OObj ob \<Rightarrow> (Checked True (\<not> used ob), w2)
               | _ \<Rightarrow> (CheckError INVALID_SECRET, w2)))"

definition is_read_call :: "event \<Rightarrow> bool" where
  "is_read_call e = (case e of
       PcIsSecretUsed h \<Rightarrow> True
     | PcGetSecretObj h a \<Rightarrow> True
     | PcGetObj p \<Rightarrow> True
     | _ \<Rightarrow> False)"

section \<open>initializeSystem (services/authService.js)\<close>

record init_result =
  init_pioneer :: entity_row
  init_secret :: "secret_row option"
  init_isNew :: bool
  init_secretHash :: "string option"

definition firstSecretFile :: "'l env \<Rightarrow> string \<Rightarrow> 'l world \<Rightarrow> string option \<times> 'l world" where
  \<comment> \<open>lines 46-60: the first file of \<open>files/{pioneerHash}/secrets\<close>, if any; errors are swallowed\<close>
  "firstSecretFile env pioneerHash w =
     (case fs_secretFiles env (ledger w) pioneerHash of
        Ret (Some (f # fs)) \<Rightarrow> Some f
      | _ \<Rightarrow> None,
      log (FsSecretFiles pioneerHash) w)"

definition find_pioneer_secret :: "'l env \<Rightarrow> string \<Rightarrow> 'l world \<Rightarrow> string \<times> 'l world" where
  \<comment> \<open>lines 95-149: the hash of the secret made with the pioneer, or the pioneer hash itself\<close>
  "find_pioneer_secret env pioneerHash w =
     (let w1 = log (FsSecretFiles pioneerHash) w
      in case fs_secretFiles env (ledger w) pioneerHash of
           Throw m \<Rightarrow> (pioneerHash, w1)
         | Ret listing \<Rightarrow>
             (let (actualSecretHash, w2) =
                    (case listing of
                       Some (f # fs) \<Rightarrow>
                         (f, case getSecret env f (''entities/'' @ pioneerHash) w1 of
                               (Throw m, wa) \<Rightarrow> wa
                             | (Ret x, wa) \<Rightarrow>
                                 if \<not> is_object x then snd (getSecret env f [] wa) else wa)
                     | _ \<Rightarrow> ([], w1))
              in if actualSecretHash = []
                 then (pioneerHash, snd (getSecret env pioneerHash [] w2))
                 else (actualSecretHash, w2)))"

definition record_pioneer_secret ::
  "'l env \<Rightarrow> string \<Rightarrow> entity_row \<Rightarrow> 'l world \<Rightarrow> secret_row option \<times> 'l world" where
  \<comment> \<open>lines 154-174: find or create the secret row; a failure leaves \<open>secret = null\<close>\<close>
  "record_pioneer_secret env secretPath pioneer w =
     (if fails env InitSecretFind then (None, w)
      else case Secret_findByPath (db w) secretPath of
             Some s \<Rightarrow> (Some s, w)
           | None \<Rightarrow>
               if fails env InitSecretCreate then (None, w)
               else let (s, d') = Secret_create secretPath (e_id pioneer) OwnerType_ENTITY None (db w)
                    in (Some s, w\<lparr>db := d'\<rparr>))"

definition initializeSystem :: "'l env \<Rightarrow> 'l world \<Rightarrow> init_result outcome \<times> 'l world" where
  "initializeSystem env w =
     (case Entity_findPioneer (db w) of
        Some pioneer \<Rightarrow>
          (let pioneerHash = last_segment (e_path pioneer);
               (actualSecretHash, w1) = firstSecretFile env pioneerHash w
           in (Ret \<lparr>init_pioneer = pioneer, init_secret = None, init_isNew = False,
                     init_secretHash = actualSecretHash\<rparr>, w1))
      | None \<Rightarrow>
          (case createPioneer env w of
             (Throw m, w1) \<Rightarrow> (Throw m, w1)
           | (Ret pioneerHash, w1) \<Rightarrow>
               if pioneerHash = [] \<or> str_includes pioneerHash ''error''
               then (Throw (''Failed to create pioneer in PathChain: '' @ pioneerHash), w1)
               else
                 (case getPioneer env pioneerHash w1 of
                    (Throw m, w2) \<Rightarrow> (Throw m, w2)
                  | (Ret (OObj pioneerObj), w2) \<Rightarrow>
                      if fails env InitEntityCreate then (Throw ''SequelizeDatabaseError'', w2)
                      else
                        (let (pioneer, d3) = Entity_create (tag pioneerObj) None (db w2);
                             (actualSecretHash, w4) = find_pioneer_secret env pioneerHash (w2\<lparr>db := d3\<rparr>);
                             (secret, w5) = record_pioneer_secret env (''secrets/'' @ actualSecretHash) pioneer w4
                         in (Ret \<lparr>init_pioneer = pioneer, init_secret = secret, init_isNew = True,
                                   init_secretHash = Some actualSecretHash\<rparr>, w5))
                  | (Ret x, w2) \<Rightarrow> (Throw ''Failed to retrieve pioneer from PathChain'', w2))))"

section \<open>register (services/authService.js)\<close>

datatype register_result =
    Success string nat string string   \<comment> \<open>token, entity id, entity path, username\<close>
  | Failure error_code

definition markAsUsed :: "'l env \<Rightarrow> secret_row \<Rightarrow> 'l world \<Rightarrow> unit outcome \<times> 'l world" where
  \<comment> \<open>\<open>Secret.prototype.markAsUsed\<close>: set \<open>used_at\<close> and save\<close>
  "markAsUsed env s w =
     (if fails env MarkAsUsedSave then (Throw ''SequelizeDatabaseError'', w)
      else (Ret (), w\<lparr>db := Secret_save (s\<lparr>s_used_at := Some (now env)\<rparr>) (db w)\<rparr>))"

definition register_bootstrap :: "'l env \<Rightarrow> 'l world \<Rightarrow> (error_code + entity_row) outcome \<times> 'l world" where
  \<comment> \<open>lines 225-254: no secret given\<close>
  "register_bootstrap env w =
     (case Entity_findPioneer (db w) of
        Some pioneer \<Rightarrow> (Ret (Inl INVALID_SECRET), w)
      | None \<Rightarrow>
          (case initializeSystem env w of
             (Throw m, w1) \<Rightarrow> (Throw m, w1)
           | (Ret ir, w1) \<Rightarrow>
               if \<not> init_isNew ir then (Ret (Inl INVALID_SECRET), w1)
               else
                 (case init_secret ir of
                    None \<Rightarrow> (Ret (Inr (init_pioneer ir)), w1)
                  | Some pioneerSecret \<Rightarrow>
                      (case markAsUsed env pioneerSecret w1 of
                         (Throw m, w2) \<Rightarrow> (Throw m, w2)
                       | (Ret u, w2) \<Rightarrow> (Ret (Inr (init_pioneer ir)), w2)))))"

definition register_lookup_secret :: "'l env \<Rightarrow> string \<Rightarrow> 'l world \<Rightarrow> obj_res \<times> 'l world" where
  \<comment> \<open>lines 287-311\<close>
  "register_lookup_secret env normalizedSecretHash w =
     (case getSecret env normalizedSecretHash [] w of
        (Throw m, w1) \<Rightarrow> (ONull, w1)
      | (Ret o1, w1) \<Rightarrow>
          (let (o2, w2) =
                 (if is_string o1
                  then (case getSecret env normalizedSecretHash [] w1 of
                          (Throw m, w2) \<Rightarrow> (o1, w2)
                        | (Ret x, w2) \<Rightarrow> (x, w2))
                  else (o1, w1))
           in if \<not> is_object o2
              then (case getObject env (''secrets/'' @ normalizedSecretHash) w2 of
                      (Throw m, w3) \<Rightarrow> (o2, w3)
                    | (Ret x, w3) \<Rightarrow> (x, w3))
              else (o2, w2)))"

definition isErrorMessage :: "string \<Rightarrow> bool" where
  \<comment> \<open>lines 363-373\<close>
  "isErrorMessage entityHash =
     (str_includes entityHash ''error'' \<or>
      str_includes entityHash ''used'' \<or>
      str_includes entityHash ''already'' \<or>
      str_includes entityHash ''not found'' \<or>
      str_includes entityHash ''not identified'' \<or>
      str_includes entityHash ''Updater'' \<or>
      length entityHash \<noteq> 64 \<or>
      \<not> isValidHash entityHash)"

definition entityHash_of :: "string outcome \<Rightarrow> string" where
  \<comment> \<open>lines 340-346: a thrown error becomes the string \<open>error: {message}\<close>\<close>
  "entityHash_of r = (case r of Throw m \<Rightarrow> ''error: '' @ m | Ret h \<Rightarrow> h)"

definition mint_failure :: "'l env \<Rightarrow> string \<Rightarrow> string \<Rightarrow> 'l world \<Rightarrow> (error_code + string) outcome \<times> 'l world" where
  \<comment> \<open>lines 375-408: which error an error message becomes\<close>
  "mint_failure env normalizedSecretHash errorMsg w =
     (let other = (if str_includes errorMsg ''Updater'' \<or>
                      str_includes errorMsg ''not identified'' \<or>
                      str_includes errorMsg ''not found''
                   then Inl INVALID_SECRET else Inl ENTITY_RETRIEVAL_FAILED)
      in if str_includes errorMsg ''used'' \<or> str_includes errorMsg ''already''
         then (case isSecretUsed env normalizedSecretHash w of
                 (Throw m, w1) \<Rightarrow> (Throw m, w1)
               | (Ret isUsedCheck, w1) \<Rightarrow>
                   if isUsedCheck = UBool True then (Ret (Inl USED_SECRET), w1)
                   else (Ret other, w1))
         else (Ret other, w))"

definition mint_entity :: "'l env \<Rightarrow> string \<Rightarrow> 'l world \<Rightarrow> (error_code + string) outcome \<times> 'l world" where
  \<comment> \<open>lines 340-408: call \<open>createEntity\<close> and read its string\<close>
  "mint_entity env normalizedSecretHash w =
     (let (r, w1) = createEntity env normalizedSecretHash w;
          entityHash = entityHash_of r
      in if entityHash = [] then (Ret (Inl ENTITY_RETRIEVAL_FAILED), w1)
         else if isErrorMessage entityHash
         then mint_failure env normalizedSecretHash entityHash w1
         else (Ret (Inr entityHash), w1))"

definition register_lookup_entity ::
  "'l env \<Rightarrow> string \<Rightarrow> string \<Rightarrow> 'l world \<Rightarrow> obj_res \<times> 'l world" where
  \<comment> \<open>lines 413-445\<close>
  "register_lookup_entity env entityHash authorPath w =
     (case getEntity env entityHash [] w of
        (Throw m, w1) \<Rightarrow> (ONull, w1)
      | (Ret o1, w1) \<Rightarrow>
          (let (o2, w2) =
                 (if is_string o1
                  then (case getEntity env entityHash authorPath w1 of
                          (Throw m, w2) \<Rightarrow> (o1, w2)
                        | (Ret x, w2) \<Rightarrow> (x, w2))
                  else (o1, w1))
           in if \<not> is_object o2
              then (case getObject env (''entities/'' @ entityHash) w2 of
                      (Throw m, w3) \<Rightarrow> (o2, w3)
                    | (Ret x, w3) \<Rightarrow> (x, w3))
              else (o2, w2)))"

definition db_error :: string where
  "db_error = ''SequelizeDatabaseError''"

text \<open>
  The schema the service runs on is the dump \<open>pathwjzs_tpathos.sql\<close> (src/unnamed/part_004)
  that services/dbInit.js executes; models/index.js does not sync the models. It creates
  \<open>entity\<close>, \<open>secret\<close> and \<open>login\<close> with \<open>ENGINE=MyISAM\<close>. That engine is not
  transactional: a statement is written when it is executed, and \<open>ROLLBACK\<close> undoes
  none of them.
\<close>

definition rollback :: "database \<Rightarrow> database \<Rightarrow> database" where
  \<comment> \<open>the tables after \<open>transaction.rollback()\<close>: \<open>snapshot\<close> as they were at the begin,
      \<open>t\<close> as the statements left them\<close>
  "rollback snapshot t = t"

definition txn_body ::
  "'l env \<Rightarrow> string \<Rightarrow> string \<Rightarrow> string \<Rightarrow> string \<Rightarrow> entity_row \<Rightarrow> database
     \<Rightarrow> entity_row outcome \<times> database" where
  \<comment> \<open>lines 475-527, on the transaction's view of the tables\<close>
  "txn_body env normalizedSecretHash username password entityTag ancestorEntity d =
     (if fails env TxnEntityCreate then (Throw db_error, d)
      else
        (let (entity, d1) = Entity_create entityTag (Some (e_id ancestorEntity)) d;
             secretPath = ''secrets/'' @ normalizedSecretHash
         in if fails env TxnSecretFind then (Throw db_error, d1)
            else
              (case (case Secret_findByPath d1 secretPath of
                       Some dbSecret \<Rightarrow>
                         if fails env TxnSecretSave then Throw db_error
                         else Ret (Secret_save (dbSecret\<lparr>s_used_at := Some (now env)\<rparr>) d1)
                     | None \<Rightarrow>
                         if fails env TxnSecretCreate then Throw db_error
                         else Ret (snd (Secret_create secretPath (e_id ancestorEntity)
                                          OwnerType_ENTITY (Some (now env)) d1)))
               of Throw m \<Rightarrow> (Throw m, d1)
                | Ret d2 \<Rightarrow>
                    if fails env TxnLoginCreate then (Throw db_error, d2)
                    else
                      (case Login_create
                              \<lparr>l_id = username, l_entity_id = e_id entity,
                               l_password = hashPassword env password,
                               l_secret = (if normalizedSecretHash = [] then None
                                           else Some normalizedSecretHash)\<rparr> d2
                       of Throw m \<Rightarrow> (Throw m, d2)
                        | Ret d3 \<Rightarrow>
                            if fails env TxnCommit then (Throw db_error, d3)
                            else (Ret entity, d3)))))"

definition register_transaction ::
  "'l env \<Rightarrow> string \<Rightarrow> string \<Rightarrow> string \<Rightarrow> string \<Rightarrow> entity_row \<Rightarrow> 'l world
     \<Rightarrow> entity_row outcome \<times> 'l world" where
  \<comment> \<open>lines 469-544: begin, the body, commit and then \<open>useSecret\<close>; or rollback and rethrow\<close>
  "register_transaction env normalizedSecretHash username password entityTag ancestorEntity w =
     (if fails env TxnBegin then (Throw db_error, w)
      else
        (let w0 = log DbBegin w
         in case txn_body env normalizedSecretHash username password entityTag ancestorEntity (db w0) of
              (Throw m, t) \<Rightarrow> (Throw m, log DbRollback (w0\<lparr>db := rollback (db w0) t\<rparr>))
            | (Ret entity, t) \<Rightarrow>
                (let w1 = log DbCommit (w0\<lparr>db := t\<rparr>);
                     (r, w2) = useSecret env normalizedSecretHash w1
                 in (Ret entity, w2))))"

definition register_with_pathchain ::
  "'l env \<Rightarrow> string \<Rightarrow> string \<Rightarrow> string \<Rightarrow> 'l world
     \<Rightarrow> (error_code + entity_row) outcome \<times> 'l world" where
  \<comment> \<open>lines 267-544: the library is loaded\<close>
  "register_with_pathchain env normalizedSecretHash username password w =
     (let (r, w1) = isSecretUsed env normalizedSecretHash w;
          isUsed = (case r of Throw m \<Rightarrow> UBool False | Ret u \<Rightarrow> u)
      in case isUsed of
           UBool True \<Rightarrow> (Ret (Inl USED_SECRET), w1)
         | _ \<Rightarrow>
           (case register_lookup_secret env normalizedSecretHash w1 of
              (OObj secretObj, w2) \<Rightarrow>
                (case Entity_findOne_path (db w2) (author secretObj) of
                   None \<Rightarrow> (Ret (Inl ANCESTOR_NOT_FOUND), w2)
                 | Some ancestorEntity \<Rightarrow>
                     (case mint_entity env normalizedSecretHash w2 of
                        (Throw m, w3) \<Rightarrow> (Throw m, w3)
                      | (Ret (Inl c), w3) \<Rightarrow> (Ret (Inl c), w3)
                      | (Ret (Inr entityHash), w3) \<Rightarrow>
                          (case register_lookup_entity env entityHash (author secretObj) w3 of
                             (OObj entityObj, w4) \<Rightarrow>
                               (case register_transaction env normalizedSecretHash username password
                                       (tag entityObj) ancestorEntity w4 of
                                  (Throw m, w5) \<Rightarrow> (Throw m, w5)
                                | (Ret entity, w5) \<Rightarrow> (Ret (Inr entity), w5))
                           | (x, w4) \<Rightarrow> (Ret (Inl ENTITY_RETRIEVAL_FAILED), w4))))
            | (x, w2) \<Rightarrow> (Ret (Inl INVALID_SECRET), w2)))"

definition fallback_txn_body ::
  "'l env \<Rightarrow> string \<Rightarrow> string \<Rightarrow> string \<Rightarrow> string \<Rightarrow> entity_row \<Rightarrow> database
     \<Rightarrow> entity_row outcome \<times> database" where
  \<comment> \<open>lines 561-587, on the transaction's view of the tables\<close>
  "fallback_txn_body env secretHash normalizedSecretHash username password ancestorEntity d =
     (if fails env TxnEntityCreate then (Throw db_error, d)
      else
        (let (entity, d1) = Entity_create (''entities/'' @ normalizedSecretHash)
                              (Some (e_id ancestorEntity)) d
         in if fails env TxnSecretCreate then (Throw db_error, d1)
            else
              (let d2 = snd (Secret_create (''secrets/'' @ normalizedSecretHash) (e_id ancestorEntity)
                               OwnerType_ENTITY (Some (now env)) d1);
                   storedSecretHash = normalizeSecretHash secretHash
               in if fails env TxnLoginCreate then (Throw db_error, d2)
                  else
                    (case Login_create
                            \<lparr>l_id = username, l_entity_id = e_id entity,
                             l_password = hashPassword env password,
                             l_secret = (if storedSecretHash = [] then None
                                         else Some storedSecretHash)\<rparr> d2
                     of Throw m \<Rightarrow> (Throw m, d2)
                      | Ret d3 \<Rightarrow>
                          if fails env TxnCommit then (Throw db_error, d3)
                          else (Ret entity, d3)))))"

definition register_without_pathchain ::
  "'l env \<Rightarrow> string \<Rightarrow> string \<Rightarrow> string \<Rightarrow> string \<Rightarrow> 'l world
     \<Rightarrow> (error_code + entity_row) outcome \<times> 'l world" where
  \<comment> \<open>lines 545-593: the library is not loaded\<close>
  "register_without_pathchain env secretHash normalizedSecretHash username password w =
     (case (case Entity_findPioneer (db w) of
              Some p \<Rightarrow> (Ret p, w)
            | None \<Rightarrow>
                (case initializeSystem env w of
                   (Throw m, w1) \<Rightarrow> (Throw m, w1)
                 | (Ret ir, w1) \<Rightarrow> (Ret (init_pioneer ir), w1)))
      of (Throw m, w1) \<Rightarrow> (Throw m, w1)
       | (Ret ancestorEntity, w1) \<Rightarrow>
           if fails env TxnBegin then (Throw db_error, w1)
           else
             (let w2 = log DbBegin w1
              in case fallback_txn_body env secretHash normalizedSecretHash username password
                        ancestorEntity (db w2) of
                   (Throw m, t) \<Rightarrow> (Throw m, log DbRollback (w2\<lparr>db := rollback (db w2) t\<rparr>))
                 | (Ret entity, t) \<Rightarrow> (Ret (Inr entity), log DbCommit (w2\<lparr>db := t\<rparr>))))"

definition register_with_secret ::
  "'l env \<Rightarrow> string \<Rightarrow> string \<Rightarrow> string \<Rightarrow> 'l world
     \<Rightarrow> (error_code + entity_row) outcome \<times> 'l world" where
  \<comment> \<open>lines 255-594: a secret was given\<close>
  "register_with_secret env secretHash username password w =
     (let normalizedSecretHash = normalizeSecretHash secretHash
      in if normalizedSecretHash = [] then (Ret (Inl INVALID_SECRET), w)
         else if isAvailable env
         then register_with_pathchain env normalizedSecretHash username password w
         else register_without_pathchain env secretHash normalizedSecretHash username password w)"

definition register :: "'l env \<Rightarrow> string \<Rightarrow> string \<Rightarrow> string \<Rightarrow> 'l world \<Rightarrow> register_result \<times> 'l world" where
  \<comment> \<open>\<open>register({ secret: secretHash, id: username, password })\<close>; an absent secret is the empty string\<close>
  "register env secretHash username password w =
     (if username = [] \<or> 255 < length username then (Failure INVALID_REQUEST, w)
      else if password = [] then (Failure INVALID_REQUEST, w)
      else if Login_usernameExists (db w) username then (Failure USERNAME_EXISTS, w)
      else
        (case (if secretHash = [] then register_bootstrap env w
               else register_with_secret env secretHash username password w)
         of (Throw m, w') \<Rightarrow> (Failure DATABASE_ERROR, w')
          | (Ret (Inl c), w') \<Rightarrow> (Failure c, w')
          | (Ret (Inr entity), w') \<Rightarrow>
              (Success (generateToken env (e_id entity) username (e_path entity))
                 (e_id entity) (e_path entity) username, w')))"

section \<open>fetchEntityInfo and getAncestorInfo (services/authService.js)\<close>

record login_info =
  li_id :: string
  li_entity_id :: nat

definition login_summary :: "login_row \<Rightarrow> login_info" where
  \<comment> \<open>lines 978-984: the login without its password and secret\<close>
  "login_summary login = \<lparr>li_id = l_id login, li_entity_id = l_entity_id login\<rparr>"

datatype info_result =
    Info entity_row "login_info option" "pc_object option"
      \<comment> \<open>\<open>{ success: true, entity, login }\<close>, with \<open>entity.pathchainData\<close> when there is one\<close>
  | InfoError error_code

definition fetchEntityInfo :: "database \<Rightarrow> nat \<Rightarrow> info_result" where
  "fetchEntityInfo d entityId =
     (if entityId = 0 then InfoError INVALID_REQUEST
      else case Entity_findByPk d entityId of
             None \<Rightarrow> InfoError DATABASE_ERROR
           | Some entity \<Rightarrow>
               Info entity (map_option login_summary (Login_findOne_entity d entityId)) None)"

definition ledger_entity_object ::
  "'l env \<Rightarrow> string \<Rightarrow> string \<Rightarrow> 'l world \<Rightarrow> obj_res \<times> 'l world" where
  \<comment> \<open>lines 1044-1058 and 1091-1106: one \<open>try\<close> around the three lookups\<close>
  "ledger_entity_object env entityHash entityPath w =
     (case getEntity env entityHash [] w of
        (Throw m, w1) \<Rightarrow> (ONull, w1)
      | (Ret o1, w1) \<Rightarrow>
          (case (if is_string o1 then getEntity env entityHash [] w1 else (Ret o1, w1)) of
             (Throw m, w2) \<Rightarrow> (o1, w2)
           | (Ret o2, w2) \<Rightarrow>
               if \<not> is_object o2
               then (case getObject env entityPath w2 of
                       (Throw m, w3) \<Rightarrow> (o2, w3)
                     | (Ret x, w3) \<Rightarrow> (x, w3))
               else (o2, w2)))"

definition stored_ancestor :: "database \<Rightarrow> entity_row \<Rightarrow> entity_row option" where
  \<comment> \<open>lines 1031-1035: \<open>if (entity.ancestor_id) findByPk(entity.ancestor_id)\<close>\<close>
  "stored_ancestor d entity =
     (case e_ancestor_id entity of
        None \<Rightarrow> None
      | Some a \<Rightarrow> if a = 0 then None else Entity_findByPk d a)"

definition ledger_ancestor :: "'l env \<Rightarrow> entity_row \<Rightarrow> 'l world \<Rightarrow> entity_row option \<times> 'l world" where
  \<comment> \<open>lines 1038-1072: the ancestor named by the ledger's record of the entity\<close>
  "ledger_ancestor env entity w =
     (let (entityObj, w1) = ledger_entity_object env (extractHash (e_path entity)) (e_path entity) w;
          ancestorPath = (case entityObj of OObj ob \<Rightarrow> ancestor ob | _ \<Rightarrow> [])
      in (if ancestorPath = [] then None else Entity_findOne_path (db w1) ancestorPath, w1))"

definition getAncestorInfo :: "'l env \<Rightarrow> nat \<Rightarrow> 'l world \<Rightarrow> info_result \<times> 'l world" where
  "getAncestorInfo env entityId w =
     (if entityId = 0 then (InfoError INVALID_REQUEST, w)
      else case Entity_findByPk (db w) entityId of
             None \<Rightarrow> (InfoError DATABASE_ERROR, w)
           | Some entity \<Rightarrow>
               (let (ancestorEntity, w1) =
                      (case stored_ancestor (db w) entity of
                         Some a \<Rightarrow> (Some a, w)
                       | None \<Rightarrow> ledger_ancestor env entity w)
                in case ancestorEntity of
                     None \<Rightarrow> (InfoError ANCESTOR_NOT_FOUND, w1)
                   | Some a \<Rightarrow>
                       (let (ancestorObj, w2) =
                              ledger_entity_object env (strip_entities_prefix (e_path a)) (e_path a) w1
                        in case fetchEntityInfo (db w2) (e_id a) of
                             InfoError c \<Rightarrow> (InfoError c, w2)
                           | Info e l x \<Rightarrow>
                               (Info e l (case ancestorObj of OObj ob \<Rightarrow> Some ob | _ \<Rightarrow> None), w2))))"

section \<open>Predicates used to state the properties\<close>

definition new_events :: "'l world \<Rightarrow> 'l world \<Rightarrow> event list" where
  \<comment> \<open>what a run from \<open>w\<close> to \<open>w'\<close> added to the trace\<close>
  "new_events w w' = drop (length (trace w)) (trace w')"

definition reads_only :: "'l world \<Rightarrow> 'l world \<Rightarrow> bool" where
  \<comment> \<open>nothing was written: same database, same ledger, and only the three reading calls were made\<close>
  "reads_only w w' =
     (db w' = db w \<and> ledger w' = ledger w \<and>
      (\<exists>evs. trace w' = trace w @ evs \<and> list_all is_read_call evs))"

definition is_lookup :: "event \<Rightarrow> bool" where
  "is_lookup e = (case e of
       PcGetPioneerObj h \<Rightarrow> True
     | PcGetEntityObj h a \<Rightarrow> True
     | PcGetSecretObj h a \<Rightarrow> True
     | PcIsSecretUsed h \<Rightarrow> True
     | PcGetObj p \<Rightarrow> True
     | FsSecretFiles h \<Rightarrow> True
     | _ \<Rightarrow> False)"

definition appends :: "(event \<Rightarrow> bool) \<Rightarrow> 'l world \<Rightarrow> 'l world \<Rightarrow> bool" where
  "appends P w w' = (\<exists>evs. trace w' = trace w @ evs \<and> list_all P evs)"

definition looks_up :: "'l world \<Rightarrow> 'l world \<Rightarrow> bool" where
  "looks_up w w' = (db w' = db w \<and> ledger w' = ledger w \<and> appends is_lookup w w')"

definition is_pre_txn_event :: "event \<Rightarrow> bool" where
  "is_pre_txn_event e = (case e of PcMakeEntity n \<Rightarrow> True | _ \<Rightarrow> is_lookup e)"

definition pre_txn :: "'l world \<Rightarrow> 'l world \<Rightarrow> bool" where
  \<comment> \<open>the steps before the transaction: lookups and the mint, no write to the database\<close>
  "pre_txn w w' = (db w' = db w \<and> appends is_pre_txn_event w w')"

definition is_hash64 :: "string \<Rightarrow> bool" where
  "is_hash64 s = (length s = 64 \<and> list_all is_hex s)"

definition is_setup_event :: "event \<Rightarrow> bool" where
  "is_setup_event e = (e = PcMakePioneer \<or> is_lookup e)"

definition secret_object :: "'l pathchain \<Rightarrow> 'l \<Rightarrow> string \<Rightarrow> pc_object option" where
  \<comment> \<open>what the library's lookups know of a secret: \<open>getSecretObj\<close>, else \<open>getObj\<close> on \<open>secrets/{hash}\<close>\<close>
  "secret_object pc l n =
     (case pc_getSecretObj pc l n [] of
        Throw m \<Rightarrow> None
      | Ret (OObj x) \<Rightarrow> Some x
      | Ret y \<Rightarrow>
          (case pc_getObj pc l (''secrets/'' @ n) of
             Ret (OObj x) \<Rightarrow> Some x
           | _ \<Rightarrow> None))"

definition without_confirmation ::
  "'l env \<Rightarrow> 'l pathchain \<Rightarrow> ('l \<Rightarrow> string \<Rightarrow> obj_res outcome \<times> 'l) \<Rightarrow> 'l env" where
  \<comment> \<open>the same environment, with another behaviour of the library's \<open>useSecret\<close>\<close>
  "without_confirmation env pc f = env\<lparr>pathchain := Some (pc\<lparr>pc_useSecret := f\<rparr>)\<rparr>"

definition registered_without_library ::
  "'l env \<Rightarrow> string \<Rightarrow> string \<Rightarrow> string \<Rightarrow> entity_row \<Rightarrow> 'l world \<Rightarrow> 'l world" where
  \<comment> \<open>the world with the three new rows, after one begin and one commit\<close>
  "registered_without_library env n username password pioneer w =
     w\<lparr>db := (db w)
          \<lparr>entity_tbl := entity_tbl (db w) @
             [\<lparr>e_id = Suc (entity_seq (db w)), e_path = ''entities/'' @ n,
               e_ancestor_id = Some (e_id pioneer)\<rparr>],
           secret_tbl := secret_tbl (db w) @
             [\<lparr>s_id = Suc (secret_seq (db w)), s_path = ''secrets/'' @ n, s_owner_id = e_id pioneer,
               s_owner_type_id = 1, s_used_at = Some (now env)\<rparr>],
           login_tbl := login_tbl (db w) @
             [\<lparr>l_id = username, l_entity_id = Suc (entity_seq (db w)),
               l_password = hashPassword env password, l_secret = Some n\<rparr>],
           entity_seq := Suc (entity_seq (db w)),
           secret_seq := Suc (secret_seq (db w))\<rparr>,
       trace := trace w @ [DbBegin, DbCommit]\<rparr>"

definition root_count :: "database \<Rightarrow> nat" where
  \<comment> \<open>how many entity rows have a null ancestor\<close>
  "root_count d = length (filter (\<lambda>r. e_ancestor_id r = None) (entity_tbl d))"

fun run_initialize :: "'l env list \<Rightarrow> 'l world \<Rightarrow> init_result outcome list \<times> 'l world" where
  \<comment> \<open>\<open>initializeSystem\<close> called once per environment, one call after the other\<close>
  "run_initialize [] w = ([], w)"
| "run_initialize (env # envs) w =
     (let (r, w1) = initializeSystem env w;
          (rs, w2) = run_initialize envs w1
      in (r # rs, w2))"

definition returns_existing :: "entity_row \<Rightarrow> init_result outcome \<Rightarrow> bool" where
  \<comment> \<open>the call answered \<open>{ pioneer, secret: null, isNew: false }\<close> for the given row\<close>
  "returns_existing p r =
     (case r of
        Throw m \<Rightarrow> False
      | Ret ir \<Rightarrow> init_pioneer ir = p \<and> \<not> init_isNew ir \<and> init_secret ir = None)"

definition is_listing :: "event \<Rightarrow> bool" where
  "is_listing e = (case e of FsSecretFiles h \<Rightarrow> True | _ \<Rightarrow> False)"

definition entity_record :: "'l env \<Rightarrow> 'l \<Rightarrow> string \<Rightarrow> pc_object option" where
  \<comment> \<open>what the ledger's lookups know of the entity at a path: \<open>getEntityObj\<close>, else \<open>getObj\<close>\<close>
  "entity_record env l path =
     (case pathchain env of
        None \<Rightarrow> None
      | Some pc \<Rightarrow>
          (case pc_getEntityObj pc l (extractHash path) [] of
             Throw m \<Rightarrow> None
           | Ret (OObj x) \<Rightarrow> Some x
           | Ret y \<Rightarrow>
               (case pc_getObj pc l path of
                  Ret (OObj x) \<Rightarrow> Some x
                | _ \<Rightarrow> None)))"

definition ledger_ancestor_row :: "'l env \<Rightarrow> 'l world \<Rightarrow> entity_row \<Rightarrow> entity_row option" where
  \<comment> \<open>the row whose path is the ancestor pointer of the entity's ledger record\<close>
  "ledger_ancestor_row env w entity =
     (case entity_record env (ledger w) (e_path entity) of
        None \<Rightarrow> None
      | Some ob \<Rightarrow> if ancestor ob = [] then None else Entity_findOne_path (db w) (ancestor ob))"

section \<open>A ledger modelled from the spec\<close>

text \<open>
  Modelled from the spec: the Ledger of section 4.2 and the Object Store of section 4.1 (the
  PathChain library is a dependency, not part of the sources). It is the library the
  concrete runs below use. Records are kept by digest; \<open>digest\<close> stands in for the
  256-bit digest of a record's encoding and numbers the records in order of creation.
\<close>

record ledger_state =
  lg_entities :: "(string \<times> pc_object) list"
  lg_secrets :: "(string \<times> pc_object) list"

definition digest :: "nat \<Rightarrow> string" where
  "digest k = replicate 63 CHR ''0'' @ [''0123456789abcdef'' ! (k mod 16)]"

definition next_digest :: "ledger_state \<Rightarrow> string" where
  "next_digest l = digest (length (lg_entities l) + length (lg_secrets l))"

definition consume :: "string \<Rightarrow> (string \<times> pc_object) list \<Rightarrow> (string \<times> pc_object) list" where
  "consume s = map (\<lambda>(k, v). if k = s then (k, v\<lparr>used := True\<rparr>) else (k, v))"

definition ledger_makePioneer :: "ledger_state \<Rightarrow> string outcome \<times> ledger_state" where
  \<comment> \<open>\<open>bootstrapRoot\<close>: the existing root, or a new self-ancestored entity and its first secret\<close>
  "ledger_makePioneer l =
     (case lg_entities l of
        (h, e) # rest \<Rightarrow> (Ret h, l)
      | [] \<Rightarrow>
          (let h = digest 0; s = digest 1
           in (Ret h,
               \<lparr>lg_entities = [(h, \<lparr>tag = ''entities/'' @ h, author = [],
                                     ancestor = ''entities/'' @ h, used = False\<rparr>)],
                lg_secrets = [(s, \<lparr>tag = ''secrets/'' @ s, author = ''entities/'' @ h,
                                    ancestor = [], used = False\<rparr>)]\<rparr>)))"

definition ledger_getEntityObj :: "ledger_state \<Rightarrow> string \<Rightarrow> string \<Rightarrow> obj_res outcome" where
  "ledger_getEntityObj l h a =
     (case map_of (lg_entities l) h of
        Some e \<Rightarrow> Ret (OObj e)
      | None \<Rightarrow> Ret (OStr ''Entity not found''))"

definition ledger_getSecretObj :: "ledger_state \<Rightarrow> string \<Rightarrow> string \<Rightarrow> obj_res outcome" where
  "ledger_getSecretObj l s a =
     (case map_of (lg_secrets l) s of
        Some x \<Rightarrow> Ret (OObj x)
      | None \<Rightarrow> Ret (OStr ''Secret not found''))"

definition ledger_isSecretUsed :: "ledger_state \<Rightarrow> string \<Rightarrow> used_res outcome" where
  \<comment> \<open>the \<open>consumed\<close> flag, or a message when the address is unknown\<close>
  "ledger_isSecretUsed l s =
     (case map_of (lg_secrets l) s of
        Some x \<Rightarrow> Ret (UBool (used x))
      | None \<Rightarrow> Ret (UStr ''Secret not found''))"

definition ledger_makeEntity :: "ledger_state \<Rightarrow> string \<Rightarrow> string outcome \<times> ledger_state" where
  \<comment> \<open>\<open>mintEntity\<close>: refuse a consumed secret; else create the child and consume the secret\<close>
  "ledger_makeEntity l s =
     (case map_of (lg_secrets l) s of
        None \<Rightarrow> (Ret ''Secret not found'', l)
      | Some x \<Rightarrow>
          if used x then (Ret ''Secret already used'', l)
          else (let h = next_digest l
                in (Ret h,
                    \<lparr>lg_entities = lg_entities l @
                       [(h, \<lparr>tag = ''entities/'' @ h, author = [], ancestor = author x, used = False\<rparr>)],
                     lg_secrets = consume s (lg_secrets l)\<rparr>)))"

definition ledger_useSecret :: "ledger_state \<Rightarrow> string \<Rightarrow> obj_res outcome \<times> ledger_state" where
  \<comment> \<open>\<open>markSecretUsed\<close>: idempotent\<close>
  "ledger_useSecret l s =
     (case map_of (lg_secrets l) s of
        None \<Rightarrow> (Ret (OStr ''Secret not found''), l)
      | Some x \<Rightarrow> (Ret (OObj (x\<lparr>used := True\<rparr>)), l\<lparr>lg_secrets := consume s (lg_secrets l)\<rparr>))"

definition ledger_getObj :: "ledger_state \<Rightarrow> string \<Rightarrow> obj_res outcome" where
  \<comment> \<open>generic lookup: the record kind is read off the address prefix\<close>
  "ledger_getObj l address =
     (if startsWith address ''secrets/'' then ledger_getSecretObj l (drop 8 address) []
      else if startsWith address ''entities/'' then ledger_getEntityObj l (drop 9 address) []
      else Ret (OStr ''Object not found''))"

definition ledger_secretFiles :: "ledger_state \<Rightarrow> string \<Rightarrow> string list option outcome" where
  \<comment> \<open>the author-scoped keys \<open>{author}/secrets/{digest}\<close>\<close>
  "ledger_secretFiles l h =
     Ret (case map fst (filter (\<lambda>(k, v). author v = ''entities/'' @ h) (lg_secrets l)) of
            [] \<Rightarrow> None
          | ks \<Rightarrow> Some ks)"

definition ledger_pathchain :: "ledger_state pathchain" where
  "ledger_pathchain =
     \<lparr>pc_makePioneer = ledger_makePioneer,
      pc_getPioneerObj = (\<lambda>l h. ledger_getEntityObj l h []),
      pc_makeEntity = ledger_makeEntity,
      pc_getEntityObj = ledger_getEntityObj,
      pc_getSecretObj = ledger_getSecretObj,
      pc_isSecretUsed = ledger_isSecretUsed,
      pc_useSecret = ledger_useSecret,
      pc_getObj = ledger_getObj\<rparr>"

text \<open>
  Modelled from the spec: the single-use rule of section 4.2. Once \<open>mintEntity\<close> has
  returned an address for a secret, the secret is consumed, and the idempotent
  \<open>markSecretUsed\<close> leaves it so: the usage check then answers \<open>true\<close>.
\<close>

definition consumes_on_mint :: "'l pathchain \<Rightarrow> bool" where
  "consumes_on_mint pc =
     (\<forall>l s h l1. pc_makeEntity pc l s = (Ret h, l1) \<and> is_hash64 h \<longrightarrow>
        pc_isSecretUsed pc (snd (pc_useSecret pc l1 s)) s = Ret (UBool True))"

section \<open>Concrete systems\<close>

text \<open>The concrete runs: an environment with that ledger, an empty system, and the system after bootstrap.\<close>

definition test_env :: "db_op list \<Rightarrow> ledger_state env" where
  "test_env fs =
     \<lparr>pathchain = Some ledger_pathchain, fs_secretFiles = ledger_secretFiles, faults = fs,
      now = 1000, hashPassword = (\<lambda>p. ''sha256:'' @ p),
      generateToken = (\<lambda>i u p. ''jwt:'' @ u)\<rparr>"

definition fresh_world :: "ledger_state world" where
  "fresh_world =
     \<lparr>db = \<lparr>entity_tbl = [], secret_tbl = [], login_tbl = [], entity_seq = 0, secret_seq = 0\<rparr>,
      ledger = \<lparr>lg_entities = [], lg_secrets = []\<rparr>,
      trace = []\<rparr>"

definition root_path :: string where
  "root_path = ''entities/'' @ digest 0"

definition root_row :: entity_row where
  "root_row = \<lparr>e_id = 1, e_path = root_path, e_ancestor_id = None\<rparr>"

definition root_secret_row :: secret_row where
  "root_secret_row = \<lparr>s_id = 1, s_path = ''secrets/'' @ digest 1, s_owner_id = 1,
                       s_owner_type_id = 1, s_used_at = None\<rparr>"

definition root_ledger :: ledger_state where
  "root_ledger =
     \<lparr>lg_entities = [(digest 0, \<lparr>tag = root_path, author = [], ancestor = root_path, used = False\<rparr>)],
      lg_secrets = [(digest 1, \<lparr>tag = ''secrets/'' @ digest 1, author = root_path,
                                ancestor = [], used = False\<rparr>)]\<rparr>"

definition root_world :: "ledger_state world" where
  "root_world =
     \<lparr>db = \<lparr>entity_tbl = [root_row], secret_tbl = [root_secret_row], login_tbl = [],
             entity_seq = 1, secret_seq = 1\<rparr>,
      ledger = root_ledger,
      trace = []\<rparr>"

definition alice_world :: "ledger_state world" where
  "alice_world =
     \<lparr>db = \<lparr>entity_tbl = [root_row, \<lparr>e_id = 2, e_path = ''entities/'' @ digest 2, e_ancestor_id = Some 1\<rparr>],
             secret_tbl = [root_secret_row\<lparr>s_used_at := Some 1000\<rparr>],
             login_tbl = [\<lparr>l_id = ''alice'', l_entity_id = 2, l_password = ''sha256:pw'',
                           l_secret = Some (digest 1)\<rparr>],
             entity_seq = 2, secret_seq = 1\<rparr>,
      ledger = \<lparr>lg_entities = lg_entities root_ledger @
                   [(digest 2, \<lparr>tag = ''entities/'' @ digest 2, author = [], ancestor = root_path,
                                used = False\<rparr>)],
                lg_secrets = [(digest 1, \<lparr>tag = ''secrets/'' @ digest 1, author = root_path,
                                ancestor = [], used = True\<rparr>)]\<rparr>,
      trace = [PcIsSecretUsed (digest 1), PcGetSecretObj (digest 1) [], PcMakeEntity (digest 1),
               PcGetEntityObj (digest 2) [], DbBegin, DbCommit, PcUseSecret (digest 1)]\<rparr>"

text \<open>
  A ledger whose \<open>makeEntity\<close> answers the library's message \<open>Updater not identified\<close>
  (the one lines 390-399 of the service look for), and the environment with it.
\<close>

definition updater_error_pathchain :: "ledger_state pathchain" where
  "updater_error_pathchain =
     ledger_pathchain\<lparr>pc_makeEntity := (\<lambda>l s. (Ret ''Updater not identified'', l))\<rparr>"

definition updater_error_env :: "ledger_state env" where
  "updater_error_env = (test_env [])\<lparr>pathchain := Some updater_error_pathchain\<rparr>"

text \<open>A ledger whose usage check throws, and the environment with it.\<close>

definition usage_throws_pathchain :: "ledger_state pathchain" where
  "usage_throws_pathchain = ledger_pathchain\<lparr>pc_isSecretUsed := (\<lambda>l s. Throw ''read failed'')\<rparr>"

definition usage_throws_env :: "ledger_state env" where
  "usage_throws_env = (test_env [])\<lparr>pathchain := Some usage_throws_pathchain\<rparr>"

text \<open>A \<open>useSecret\<close> that throws and leaves the ledger as it was.\<close>

definition confirmation_throws :: "ledger_state \<Rightarrow> string \<Rightarrow> obj_res outcome \<times> ledger_state" where
  "confirmation_throws l s = (Throw ''write failed'', l)"

text \<open>The environment of the concrete runs with the library not loaded.\<close>

definition offline_env :: "ledger_state env" where
  "offline_env = (test_env [])\<lparr>pathchain := None\<rparr>"

text \<open>
  The system after Alice's registration, with the ancestor link of her row missing (as in
  a row that predates the link), for the runs of \<open>getAncestorInfo\<close>.
\<close>

definition unlinked_row :: entity_row where
  "unlinked_row = \<lparr>e_id = 2, e_path = ''entities/'' @ digest 2, e_ancestor_id = None\<rparr>"

definition unlinked_world :: "ledger_state world" where
  "unlinked_world = alice_world\<lparr>db := (db alice_world)\<lparr>entity_tbl := [root_row, unlinked_row]\<rparr>, trace := []\<rparr>"

definition root_object :: pc_object where
  "root_object = \<lparr>tag = root_path, author = [], ancestor = root_path, used = False\<rparr>"

section \<open>The reading calls of the wrapper\<close>

lemma reads_only_refl: "reads_only w w"
  by (simp add: reads_only_def)

lemma reads_only_trans: "reads_only w w1 \<Longrightarrow> reads_only w1 w2 \<Longrightarrow> reads_only w w2"
  by (auto simp: reads_only_def)

lemma getSecret_reads: "getSecret env h a w = (r, w') \<Longrightarrow> reads_only w w'"
  by (auto simp: getSecret_def log_def is_read_call_def reads_only_def split: option.splits)

lemma getObject_reads: "getObject env p w = (r, w') \<Longrightarrow> reads_only w w'"
  by (auto simp: getObject_def log_def is_read_call_def reads_only_def split: option.splits)

lemma isSecretUsed_reads: "isSecretUsed env h w = (r, w') \<Longrightarrow> reads_only w w'"
  by (auto simp: isSecretUsed_def log_def is_read_call_def reads_only_def split: option.splits)

lemma checkSecret_lookup_reads: "checkSecret_lookup env h w = (r, w') \<Longrightarrow> reads_only w w'"
  unfolding checkSecret_lookup_def
  by (auto split: prod.splits outcome.splits if_splits
           dest!: getSecret_reads getObject_reads intro: reads_only_trans reads_only_refl)

section \<open>checkSecret is a read-only probe\<close>

text \<open>
  Claim C9. On every input \<open>checkSecret\<close> leaves the three tables and the ledger as they
  were, and the only calls it makes to the library are \<open>isSecretUsed\<close>, \<open>getSecret\<close> and
  \<open>getObject\<close>; it answers \<open>{valid, unused}\<close> or one of the errors \<open>INVALID_REQUEST\<close>,
  \<open>INVALID_SECRET\<close>, \<open>DATABASE_ERROR\<close>.
\<close>

theorem checkSecret_read_only:
  "reads_only w (snd (checkSecret env secretInput w)) \<and>
   (case fst (checkSecret env secretInput w) of
      Checked valid unused \<Rightarrow> True
    | CheckError c \<Rightarrow> c = INVALID_REQUEST \<or> c = INVALID_SECRET \<or> c = DATABASE_ERROR)"
  unfolding checkSecret_def Let_def
  by (auto split: prod.splits outcome.splits if_splits used_res.splits bool.splits obj_res.splits
           dest!: isSecretUsed_reads checkSecret_lookup_reads intro: reads_only_trans reads_only_refl)

section \<open>Traces of the wrapper calls\<close>

lemma appends_refl: "appends P w w"
  by (simp add: appends_def)

lemma appends_trans: "appends P w w1 \<Longrightarrow> appends P w1 w2 \<Longrightarrow> appends P w w2"
  by (auto simp: appends_def)

lemma appends_mono: "appends P w w' \<Longrightarrow> (\<And>e. P e \<Longrightarrow> Q e) \<Longrightarrow> appends Q w w'"
  by (auto simp: appends_def list_all_iff)

lemma looks_up_refl: "looks_up w w"
  by (simp add: looks_up_def appends_refl)

lemma looks_up_trans: "looks_up w w1 \<Longrightarrow> looks_up w1 w2 \<Longrightarrow> looks_up w w2"
  by (auto simp: looks_up_def intro: appends_trans)

lemma getSecret_looks_up: "getSecret env h a w = (r, w') \<Longrightarrow> looks_up w w'"
  by (auto simp: getSecret_def log_def is_lookup_def looks_up_def appends_def split: option.splits)

lemma getEntity_looks_up: "getEntity env h a w = (r, w') \<Longrightarrow> looks_up w w'"
  by (auto simp: getEntity_def log_def is_lookup_def looks_up_def appends_def split: option.splits)

lemma getObject_looks_up: "getObject env p w = (r, w') \<Longrightarrow> looks_up w w'"
  by (auto simp: getObject_def log_def is_lookup_def looks_up_def appends_def split: option.splits)

lemma getPioneer_looks_up: "getPioneer env h w = (r, w') \<Longrightarrow> looks_up w w'"
  by (auto simp: getPioneer_def log_def is_lookup_def looks_up_def appends_def split: option.splits)

lemma isSecretUsed_looks_up: "isSecretUsed env h w = (r, w') \<Longrightarrow> looks_up w w'"
  by (auto simp: isSecretUsed_def log_def is_lookup_def looks_up_def appends_def split: option.splits)

lemma register_lookup_secret_looks_up:
  "register_lookup_secret env h w = (r, w') \<Longrightarrow> looks_up w w'"
  unfolding register_lookup_secret_def
  by (auto split: prod.splits outcome.splits if_splits
           dest!: getSecret_looks_up getObject_looks_up intro: looks_up_trans looks_up_refl)

lemma register_lookup_entity_looks_up:
  "register_lookup_entity env h a w = (r, w') \<Longrightarrow> looks_up w w'"
  unfolding register_lookup_entity_def
  by (auto split: prod.splits outcome.splits if_splits
           dest!: getEntity_looks_up getObject_looks_up intro: looks_up_trans looks_up_refl)

lemma ledger_entity_object_looks_up:
  "ledger_entity_object env h p w = (r, w') \<Longrightarrow> looks_up w w'"
  unfolding ledger_entity_object_def
  by (auto split: prod.splits outcome.splits if_splits
           dest!: getEntity_looks_up getObject_looks_up intro: looks_up_trans looks_up_refl)

section \<open>The mint and the transaction, step by step\<close>

lemma createEntity_run:
  assumes "createEntity env n w = (r, w')"
  shows "db w' = db w \<and> (\<exists>evs. trace w' = trace w @ evs \<and> list_all (\<lambda>e. e = PcMakeEntity n) evs)"
  using assms unfolding createEntity_def
  by (auto simp: log_def split: prod.splits option.splits)

lemma mint_failure_run:
  assumes "mint_failure env n msg w = (r, w')"
  shows "looks_up w w' \<and> (\<forall>h. r \<noteq> Ret (Inr h))"
  using assms unfolding mint_failure_def Let_def
  by (auto split: prod.splits outcome.splits if_splits dest!: isSecretUsed_looks_up intro: looks_up_refl)

lemma mint_entity_run:
  assumes "mint_entity env n w = (r, w')"
  shows "db w' = db w \<and> (\<exists>evs. trace w' = trace w @ evs \<and> list_all (\<lambda>e. e = PcMakeEntity n \<or> is_lookup e) evs)"
proof -
  obtain r1 w1 where c: "createEntity env n w = (r1, w1)" by (cases "createEntity env n w")
  from createEntity_run[OF c] obtain evs1 where
    1: "db w1 = db w" "trace w1 = trace w @ evs1" "list_all (\<lambda>e. e = PcMakeEntity n) evs1" by auto
  have "looks_up w1 w'"
    using assms c unfolding mint_entity_def Let_def
    by (auto split: if_splits dest!: mint_failure_run intro: looks_up_refl)
  then obtain evs2 where 2: "db w' = db w1" "trace w' = trace w1 @ evs2" "list_all is_lookup evs2"
    by (auto simp: looks_up_def appends_def)
  from 1 2 show ?thesis by (auto simp: list_all_iff)
qed

lemma register_transaction_cases:
  assumes "register_transaction env n u p tg anc w = (r, w')"
  shows "(fails env TxnBegin \<and> r = Throw db_error \<and> w' = w) \<or>
         (\<not> fails env TxnBegin \<and> (\<exists>m t. txn_body env n u p tg anc (db w) = (Throw m, t) \<and> r = Throw m \<and>
            db w' = t \<and> ledger w' = ledger w \<and> trace w' = trace w @ [DbBegin, DbRollback])) \<or>
         (\<not> fails env TxnBegin \<and> (\<exists>e t. txn_body env n u p tg anc (db w) = (Ret e, t) \<and> r = Ret e \<and>
            db w' = t \<and> (\<exists>evs. trace w' = trace w @ [DbBegin, DbCommit] @ evs \<and> list_all (\<lambda>e. e = PcUseSecret n) evs)))"
  using assms unfolding register_transaction_def Let_def useSecret_def
  by (auto simp: log_def rollback_def split: prod.splits outcome.splits if_splits option.splits)

lemma pre_txn_trans: "pre_txn w w1 \<Longrightarrow> pre_txn w1 w2 \<Longrightarrow> pre_txn w w2"
  by (auto simp: pre_txn_def intro: appends_trans)

lemma looks_up_pre_txn: "looks_up w w' \<Longrightarrow> pre_txn w w'"
proof -
  assume l: "looks_up w w'"
  have "is_pre_txn_event e" if "is_lookup e" for e
    using that by (cases e) (auto simp: is_pre_txn_event_def)
  with l show ?thesis
    unfolding looks_up_def pre_txn_def by (blast intro: appends_mono)
qed

lemma mint_entity_pre_txn: "mint_entity env n w = (r, w') \<Longrightarrow> pre_txn w w'"
proof -
  assume "mint_entity env n w = (r, w')"
  from mint_entity_run[OF this] obtain evs where
    e: "db w' = db w" "trace w' = trace w @ evs" "list_all (\<lambda>e. e = PcMakeEntity n \<or> is_lookup e) evs"
    by blast
  have "is_pre_txn_event e" if "e = PcMakeEntity n \<or> is_lookup e" for e
    using that by (cases e) (auto simp: is_pre_txn_event_def)
  with e(3) have "list_all is_pre_txn_event evs" by (simp add: list_all_iff)
  with e(1,2) show ?thesis by (auto simp: pre_txn_def appends_def)
qed

lemma register_with_pathchain_elim [consumes 1, case_names used no_secret no_ancestor mint_failed no_entity txn]:
  assumes run: "register_with_pathchain env n u p w = (r, w')"
  obtains
    w1 where "isSecretUsed env n w = (Ret (UBool True), w1)" "r = Ret (Inl USED_SECRET)" "w' = w1"
  | r1 w1 so w2 where "isSecretUsed env n w = (r1, w1)" "r1 \<noteq> Ret (UBool True)"
      "register_lookup_secret env n w1 = (so, w2)" "\<not> is_object so"
      "r = Ret (Inl INVALID_SECRET)" "w' = w2"
  | r1 w1 secretObj w2 where "isSecretUsed env n w = (r1, w1)" "r1 \<noteq> Ret (UBool True)"
      "register_lookup_secret env n w1 = (OObj secretObj, w2)"
      "Entity_findOne_path (db w2) (author secretObj) = None"
      "r = Ret (Inl ANCESTOR_NOT_FOUND)" "w' = w2"
  | r1 w1 secretObj w2 ancestorEntity r3 w3 where "isSecretUsed env n w = (r1, w1)" "r1 \<noteq> Ret (UBool True)"
      "register_lookup_secret env n w1 = (OObj secretObj, w2)"
      "Entity_findOne_path (db w2) (author secretObj) = Some ancestorEntity"
      "mint_entity env n w2 = (r3, w3)" "\<forall>h. r3 \<noteq> Ret (Inr h)"
      "r = (case r3 of Throw m \<Rightarrow> Throw m | Ret x \<Rightarrow> Ret (Inl (case x of Inl c \<Rightarrow> c)))" "w' = w3"
  | r1 w1 secretObj w2 ancestorEntity entityHash w3 eo w4 where
      "isSecretUsed env n w = (r1, w1)" "r1 \<noteq> Ret (UBool True)"
      "register_lookup_secret env n w1 = (OObj secretObj, w2)"
      "Entity_findOne_path (db w2) (author secretObj) = Some ancestorEntity"
      "mint_entity env n w2 = (Ret (Inr entityHash), w3)"
      "register_lookup_entity env entityHash (author secretObj) w3 = (eo, w4)" "\<not> is_object eo"
      "r = Ret (Inl ENTITY_RETRIEVAL_FAILED)" "w' = w4"
  | r1 w1 secretObj w2 ancestorEntity entityHash w3 entityObj w4 r5 where
      "isSecretUsed env n w = (r1, w1)" "r1 \<noteq> Ret (UBool True)"
      "register_lookup_secret env n w1 = (OObj secretObj, w2)"
      "Entity_findOne_path (db w2) (author secretObj) = Some ancestorEntity"
      "mint_entity env n w2 = (Ret (Inr entityHash), w3)"
      "register_lookup_entity env entityHash (author secretObj) w3 = (OObj entityObj, w4)"
      "register_transaction env n u p (tag entityObj) ancestorEntity w4 = (r5, w')"
      "r = (case r5 of Throw m \<Rightarrow> Throw m | Ret e \<Rightarrow> Ret (Inr e))"
proof -
  obtain r1 w1 where 1: "isSecretUsed env n w = (r1, w1)" by (cases "isSecretUsed env n w")
  show thesis
  proof (cases "r1 = Ret (UBool True)")
    case True
    with run 1 have "r = Ret (Inl USED_SECRET)" "w' = w1"
      unfolding register_with_pathchain_def by auto
    with that(1) 1 True show thesis by blast
  next
    case nu: False
    obtain so w2 where 2: "register_lookup_secret env n w1 = (so, w2)"
      by (cases "register_lookup_secret env n w1")
    from run 1 nu 2 have rest: "(r, w') = (case so of
         OObj secretObj \<Rightarrow>
           (case Entity_findOne_path (db w2) (author secretObj) of
              None \<Rightarrow> (Ret (Inl ANCESTOR_NOT_FOUND), w2)
            | Some ancestorEntity \<Rightarrow>
                (case mint_entity env n w2 of
                   (Throw m, w3) \<Rightarrow> (Throw m, w3)
                 | (Ret (Inl c), w3) \<Rightarrow> (Ret (Inl c), w3)
                 | (Ret (Inr entityHash), w3) \<Rightarrow>
                     (case register_lookup_entity env entityHash (author secretObj) w3 of
                        (OObj entityObj, w4) \<Rightarrow>
                          (case register_transaction env n u p (tag entityObj) ancestorEntity w4 of
                             (Throw m, w5) \<Rightarrow> (Throw m, w5)
                           | (Ret entity, w5) \<Rightarrow> (Ret (Inr entity), w5))
                      | (x, w4) \<Rightarrow> (Ret (Inl ENTITY_RETRIEVAL_FAILED), w4))))
       | _ \<Rightarrow> (Ret (Inl INVALID_SECRET), w2))"
      unfolding register_with_pathchain_def Let_def
      by (auto split: outcome.splits used_res.splits bool.splits obj_res.splits)
    show thesis
    proof (cases "is_object so")
      case False
      with rest have "r = Ret (Inl INVALID_SECRET)" "w' = w2"
        by (auto simp: is_object_def split: obj_res.splits)
      with that(2) 1 nu 2 False show thesis by blast
    next
      case True
      then obtain secretObj where so: "so = OObj secretObj"
        by (auto simp: is_object_def split: obj_res.splits)
      show thesis
      proof (cases "Entity_findOne_path (db w2) (author secretObj)")
        case None
        with rest so have "r = Ret (Inl ANCESTOR_NOT_FOUND)" "w' = w2" by auto
        with that(3) 1 nu 2 so None show thesis by blast
      next
        case (Some ancestorEntity)
        obtain r3 w3 where 3: "mint_entity env n w2 = (r3, w3)" by (cases "mint_entity env n w2")
        show thesis
        proof (cases "\<exists>h. r3 = Ret (Inr h)")
          case False
          with rest so Some 3 have
            "r = (case r3 of Throw m \<Rightarrow> Throw m | Ret x \<Rightarrow> Ret (Inl (case x of Inl c \<Rightarrow> c)))" "w' = w3"
            by (auto split: outcome.splits sum.splits)
          with that(4) 1 nu 2 so Some 3 False show thesis by blast
        next
          case True
          then obtain entityHash where r3: "r3 = Ret (Inr entityHash)" by blast
          obtain eo w4 where 4: "register_lookup_entity env entityHash (author secretObj) w3 = (eo, w4)"
            by (cases "register_lookup_entity env entityHash (author secretObj) w3")
          show thesis
          proof (cases "is_object eo")
            case False
            with rest so Some 3 r3 4 have "r = Ret (Inl ENTITY_RETRIEVAL_FAILED)" "w' = w4"
              by (auto simp: is_object_def split: obj_res.splits)
            with that(5) 1 nu 2 so Some 3 r3 4 False show thesis by blast
          next
            case True
            then obtain entityObj where eo: "eo = OObj entityObj"
              by (auto simp: is_object_def split: obj_res.splits)
            obtain r5 w5 where 5: "register_transaction env n u p (tag entityObj) ancestorEntity w4 = (r5, w5)"
              by (cases "register_transaction env n u p (tag entityObj) ancestorEntity w4")
            with rest so Some 3 r3 4 eo have
              "r = (case r5 of Throw m \<Rightarrow> Throw m | Ret e \<Rightarrow> Ret (Inr e))" "w' = w5"
              by (auto split: outcome.splits)
            with that(6) 1 nu 2 so Some 3 r3 4 eo 5 show thesis by blast
          qed
        qed
      qed
    qed
  qed
qed

lemma register_with_pathchain_run:
  assumes "register_with_pathchain env n u p w = (r, w')"
  shows "(pre_txn w w' \<and> (\<forall>e. r \<noteq> Ret (Inr e))) \<or>
         (\<exists>tg anc w4 r4. pre_txn w w4 \<and> register_transaction env n u p tg anc w4 = (r4, w') \<and>
            r = (case r4 of Throw m \<Rightarrow> Throw m | Ret e \<Rightarrow> Ret (Inr e)))"
  using assms
proof (cases rule: register_with_pathchain_elim)
  case (used w1)
  then show ?thesis by (auto dest!: isSecretUsed_looks_up looks_up_pre_txn)
next
  case (no_secret r1 w1 so w2)
  then show ?thesis
    by (auto dest!: isSecretUsed_looks_up register_lookup_secret_looks_up looks_up_pre_txn intro: pre_txn_trans)
next
  case (no_ancestor r1 w1 secretObj w2)
  then show ?thesis
    by (auto dest!: isSecretUsed_looks_up register_lookup_secret_looks_up looks_up_pre_txn intro: pre_txn_trans)
next
  case (mint_failed r1 w1 secretObj w2 ancestorEntity r3 w3)
  then have "pre_txn w w3"
    by (auto dest!: isSecretUsed_looks_up register_lookup_secret_looks_up looks_up_pre_txn mint_entity_pre_txn
             intro: pre_txn_trans)
  with mint_failed show ?thesis by (auto split: outcome.splits)
next
  case (no_entity r1 w1 secretObj w2 ancestorEntity entityHash w3 eo w4)
  then have "pre_txn w w4"
    by (auto dest!: isSecretUsed_looks_up register_lookup_secret_looks_up looks_up_pre_txn mint_entity_pre_txn
                    register_lookup_entity_looks_up
             intro: pre_txn_trans)
  with no_entity show ?thesis by auto
next
  case (txn r1 w1 secretObj w2 ancestorEntity entityHash w3 entityObj w4 r5)
  then have "pre_txn w w4"
    by (auto dest!: isSecretUsed_looks_up register_lookup_secret_looks_up looks_up_pre_txn mint_entity_pre_txn
                    register_lookup_entity_looks_up
             intro: pre_txn_trans)
  with txn show ?thesis by blast
qed

section \<open>The steps of initializeSystem\<close>

lemma firstSecretFile_looks_up: "firstSecretFile env h w = (r, w') \<Longrightarrow> looks_up w w'"
  by (auto simp: firstSecretFile_def log_def looks_up_def appends_def is_lookup_def)

lemma find_pioneer_secret_looks_up: "find_pioneer_secret env h w = (r, w') \<Longrightarrow> looks_up w w'"
proof -
  assume a: "find_pioneer_secret env h w = (r, w')"
  have l: "looks_up w (log (FsSecretFiles h) w)"
    by (simp add: log_def looks_up_def appends_def is_lookup_def)
  have g: "\<And>f a v. looks_up v (snd (getSecret env f a v))"
    by (metis getSecret_looks_up prod.collapse)
  show ?thesis
    using a l unfolding find_pioneer_secret_def Let_def
    by (auto split: outcome.splits option.splits list.splits prod.splits if_splits
             dest!: getSecret_looks_up) (meson looks_up_trans g)+
qed

lemma record_pioneer_secret_trace:
  "record_pioneer_secret env sp pioneer w = (r, w') \<Longrightarrow>
     trace w' = trace w \<and> ledger w' = ledger w \<and> entity_tbl (db w') = entity_tbl (db w)
     \<and> login_tbl (db w') = login_tbl (db w)"
  by (auto simp: record_pioneer_secret_def Secret_create_def Let_def split: if_splits option.splits)

lemma createPioneer_run:
  "createPioneer env w = (r, w') \<Longrightarrow>
     db w' = db w \<and> (\<exists>evs. trace w' = trace w @ evs \<and> list_all (\<lambda>e. e = PcMakePioneer) evs)"
  by (auto simp: createPioneer_def log_def split: option.splits prod.splits)

lemma markAsUsed_trace: "markAsUsed env s w = (r, w') \<Longrightarrow> trace w' = trace w \<and> ledger w' = ledger w"
  by (auto simp: markAsUsed_def split: if_splits)

section \<open>Hashes, error messages and digests\<close>

lemma startsWith_subset: "startsWith s p \<Longrightarrow> set p \<subseteq> set s"
  by (induction s p rule: startsWith.induct) auto

lemma str_includes_subset: "str_includes s sub \<Longrightarrow> set sub \<subseteq> set s"
proof (induction s)
  case Nil
  then show ?case by simp
next
  case (Cons c cs)
  from Cons.prems have "startsWith (c # cs) sub \<or> str_includes cs sub" by simp
  then show ?case
  proof
    assume "startsWith (c # cs) sub"
    then show ?thesis by (rule startsWith_subset)
  next
    assume "str_includes cs sub"
    with Cons.IH show ?thesis by auto
  qed
qed

lemma hex_no_letter:
  "list_all is_hex s \<Longrightarrow> c \<in> set sub \<Longrightarrow> \<not> is_hex c \<Longrightarrow> \<not> str_includes s sub"
  by (auto simp: list_all_iff dest!: str_includes_subset)

lemma hex_no_words:
  assumes "list_all is_hex s"
  shows "\<not> str_includes s ''error''" "\<not> str_includes s ''used''" "\<not> str_includes s ''already''"
    "\<not> str_includes s ''not found''" "\<not> str_includes s ''not identified''"
    "\<not> str_includes s ''Updater''"
proof -
  have r: "\<not> is_hex CHR ''r''" and u: "\<not> is_hex CHR ''u''" and n: "\<not> is_hex CHR ''n''"
    by (simp_all add: is_hex_def)
  show "\<not> str_includes s ''error''" by (rule hex_no_letter[OF assms _ r]) simp
  show "\<not> str_includes s ''used''" by (rule hex_no_letter[OF assms _ u]) simp
  show "\<not> str_includes s ''already''" by (rule hex_no_letter[OF assms _ r]) simp
  show "\<not> str_includes s ''not found''" by (rule hex_no_letter[OF assms _ n]) simp
  show "\<not> str_includes s ''not identified''" by (rule hex_no_letter[OF assms _ n]) simp
  show "\<not> str_includes s ''Updater''" by (rule hex_no_letter[OF assms _ r]) simp
qed

lemma dropWhile_same_length: "length (dropWhile P xs) = length xs \<Longrightarrow> dropWhile P xs = xs"
  by (metis append_self_conv2 length_0_conv length_append add_cancel_left_left takeWhile_dropWhile_id add.commute)

lemma trim_same_length:
  assumes "length (trim s) = length s"
  shows "trim s = s"
proof -
  have 1: "length (dropWhile is_space (rev (dropWhile is_space s))) \<le> length (dropWhile is_space s)"
    by (metis length_dropWhile_le length_rev)
  have 2: "length (dropWhile is_space s) \<le> length s" by (rule length_dropWhile_le)
  from assms have 3: "length (dropWhile is_space (rev (dropWhile is_space s))) = length s"
    by (simp add: trim_def)
  from 1 2 3 have a: "length (dropWhile is_space s) = length s" by simp
  hence b: "dropWhile is_space s = s" by (rule dropWhile_same_length)
  from 3 b have "dropWhile is_space (rev s) = rev s"
    by (intro dropWhile_same_length) simp
  with b show ?thesis by (simp add: trim_def)
qed

lemma hex_not_space: "is_hex c \<Longrightarrow> \<not> is_space c"
  by (auto simp: is_hex_def is_space_def)

lemma trim_hex: "list_all is_hex s \<Longrightarrow> trim s = s"
proof (cases s)
  case Nil
  then show ?thesis by (simp add: trim_def)
next
  case (Cons a list)
  assume h: "list_all is_hex s"
  with Cons have "\<not> is_space (hd s)" by (auto dest: hex_not_space)
  hence 1: "dropWhile is_space s = s" using Cons by auto
  from h Cons have "\<not> is_space (last s)"
    by (metis hex_not_space last_in_set list.distinct(1) list_all_iff)
  hence 2: "dropWhile is_space (rev s) = rev s"
    using Cons by (metis dropWhile_eq_self_iff hd_rev)
  from 1 2 show ?thesis by (simp add: trim_def)
qed

lemma not_error_message_iff: "(entityHash \<noteq> [] \<and> \<not> isErrorMessage entityHash) = is_hash64 entityHash"
proof
  assume "entityHash \<noteq> [] \<and> \<not> isErrorMessage entityHash"
  hence l: "length entityHash = 64" and v: "isValidHash entityHash"
    by (auto simp: isErrorMessage_def)
  from v have "length (trim entityHash) = 64" "list_all is_hex (trim entityHash)"
    by (auto simp: isValidHash_def Let_def)
  with l trim_same_length[of entityHash] show "is_hash64 entityHash"
    by (simp add: is_hash64_def)
next
  assume h: "is_hash64 entityHash"
  hence "list_all is_hex entityHash" "length entityHash = 64" by (auto simp: is_hash64_def)
  thus "entityHash \<noteq> [] \<and> \<not> isErrorMessage entityHash"
    using hex_no_words[of entityHash] trim_hex[of entityHash]
    by (auto simp: isErrorMessage_def isValidHash_def Let_def)
qed

lemma length_digest: "length (digest k) = 64"
  by (simp add: digest_def)

lemma hex_digest: "list_all is_hex (digest k)"
proof -
  have "''0123456789abcdef'' ! (k mod 16) \<in> set ''0123456789abcdef''"
    by (rule nth_mem) simp
  hence "is_hex (''0123456789abcdef'' ! (k mod 16))"
    unfolding is_hex_def by auto
  moreover have "is_hex CHR ''0''" by (simp add: is_hex_def)
  ultimately show ?thesis by (simp add: digest_def list_all_iff)
qed

lemma is_hash64_digest: "is_hash64 (digest k)"
  by (simp add: is_hash64_def length_digest hex_digest)

lemma digest_not_Nil: "digest k \<noteq> []"
  using length_digest[of k] by auto

lemma digest_eq_iff: "k < 16 \<Longrightarrow> j < 16 \<Longrightarrow> (digest k = digest j) = (k = j)"
proof -
  assume a: "k < 16" "j < 16"
  have d: "distinct ''0123456789abcdef''" by simp
  have "(''0123456789abcdef'' ! k = ''0123456789abcdef'' ! j) = (k = j)"
    using a by (intro nth_eq_iff_index_eq[OF d]) simp_all
  with a show ?thesis by (simp add: digest_def)
qed

lemma trim_digest: "trim (digest k) = digest k"
  by (rule trim_hex[OF hex_digest])

lemma digest_no_slash: "CHR ''/'' \<notin> set (digest k)"
  using hex_digest[of k] by (auto simp: list_all_iff is_hex_def)

lemma startsWith_digest: "\<not> startsWith (digest k) ''secrets/''"
  using digest_no_slash[of k] by (auto dest!: startsWith_subset)

lemma normalize_digest: "normalizeSecretHash (digest k) = digest k"
  by (simp add: normalizeSecretHash_def trim_digest startsWith_digest digest_not_Nil)

lemma not_error_digest: "\<not> isErrorMessage (digest k)"
  using not_error_message_iff[of "digest k"] is_hash64_digest by simp

lemma digest_no_error: "\<not> str_includes (digest k) ''error''"
  by (rule hex_no_words[OF hex_digest])

lemma last_segment_path: "CHR ''/'' \<notin> set h \<Longrightarrow> last_segment (p @ CHR ''/'' # h) = h"
proof -
  assume a: "CHR ''/'' \<notin> set h"
  have "takeWhile (\<lambda>c. c \<noteq> CHR ''/'') (rev h @ CHR ''/'' # rev p) = rev h"
    using a by (subst takeWhile_append2) auto
  thus ?thesis by (simp add: last_segment_def)
qed

section \<open>Concrete runs\<close>

lemmas model_defs =
  initializeSystem_def Entity_findPioneer_def createPioneer_def getPioneer_def getSecret_def getObject_def
  getEntity_def isSecretUsed_def useSecret_def createEntity_def
  find_pioneer_secret_def record_pioneer_secret_def firstSecretFile_def
  Entity_create_def Secret_create_def Secret_findByPath_def Secret_save_def Entity_findOne_path_def
  Entity_findByPk_def Login_usernameExists_def Login_create_def Login_findOne_entity_def
  register_def register_bootstrap_def register_with_secret_def register_with_pathchain_def
  register_without_pathchain_def register_lookup_secret_def register_lookup_entity_def
  mint_entity_def mint_failure_def entityHash_of_def register_transaction_def txn_body_def
  fallback_txn_body_def markAsUsed_def rollback_def
  log_def fails_def isAvailable_def is_object_def is_string_def OwnerType_ENTITY_def

lemmas ledger_defs =
  ledger_pathchain_def ledger_makePioneer_def ledger_getEntityObj_def ledger_getSecretObj_def
  ledger_isSecretUsed_def ledger_makeEntity_def ledger_useSecret_def ledger_getObj_def
  ledger_secretFiles_def next_digest_def consume_def
  test_env_def fresh_world_def root_world_def root_ledger_def root_row_def root_secret_row_def root_path_def

lemmas digest_simps =
  length_digest digest_not_Nil trim_digest normalize_digest not_error_digest digest_no_error
  digest_eq_iff startsWith_digest

lemma init_fresh:
  "initializeSystem (test_env []) fresh_world =
     (Ret \<lparr>init_pioneer = root_row, init_secret = Some root_secret_row, init_isNew = True,
           init_secretHash = Some (digest 1)\<rparr>,
      root_world\<lparr>trace := [PcMakePioneer, PcGetPioneerObj (digest 0), FsSecretFiles (digest 0),
                            PcGetSecretObj (digest 1) (''entities/'' @ digest 0)]\<rparr>)"
  by (simp add: model_defs ledger_defs digest_simps Let_def)

lemma register_alice:
  "register (test_env []) (digest 1) ''alice'' ''pw'' root_world =
     (Success ''jwt:alice'' 2 (''entities/'' @ digest 2) ''alice'', alice_world)"
  by (simp add: model_defs ledger_defs digest_simps alice_world_def Let_def)

lemma register_alice_login_fault:
  "register (test_env [TxnLoginCreate]) (digest 1) ''alice'' ''pw'' root_world =
     (Failure DATABASE_ERROR,
      root_world\<lparr>db := (db alice_world)\<lparr>login_tbl := []\<rparr>,
                 ledger := ledger alice_world,
                 trace := [PcIsSecretUsed (digest 1), PcGetSecretObj (digest 1) [], PcMakeEntity (digest 1),
                           PcGetEntityObj (digest 2) [], DbBegin, DbRollback]\<rparr>)"
  by (simp add: model_defs ledger_defs digest_simps alice_world_def Let_def)

section \<open>The registration transaction is not atomic\<close>

text \<open>
  Claim C1. In the system after bootstrap, Alice registers with the root's secret and the
  insert of the login row fails. The call answers \<open>DATABASE_ERROR\<close>, and the transaction
  was opened and rolled back, never committed. But the tables are not what they were
  before the call: the entity row inserted and the secret row stamped \<open>used_at\<close> before
  the failing insert are still there, with no login row for them.
\<close>

theorem register_transaction_not_atomic:
  "fst (register (test_env [TxnLoginCreate]) (digest 1) ''alice'' ''pw'' root_world) = Failure DATABASE_ERROR \<and>
   new_events root_world (snd (register (test_env [TxnLoginCreate]) (digest 1) ''alice'' ''pw'' root_world))
     = [PcIsSecretUsed (digest 1), PcGetSecretObj (digest 1) [], PcMakeEntity (digest 1),
        PcGetEntityObj (digest 2) [], DbBegin, DbRollback] \<and>
   entity_tbl (db root_world) = [root_row] \<and>
   secret_tbl (db root_world) = [root_secret_row] \<and>
   entity_tbl (db (snd (register (test_env [TxnLoginCreate]) (digest 1) ''alice'' ''pw'' root_world)))
     = [root_row, \<lparr>e_id = 2, e_path = ''entities/'' @ digest 2, e_ancestor_id = Some 1\<rparr>] \<and>
   secret_tbl (db (snd (register (test_env [TxnLoginCreate]) (digest 1) ''alice'' ''pw'' root_world)))
     = [root_secret_row\<lparr>s_used_at := Some 1000\<rparr>] \<and>
   login_tbl (db (snd (register (test_env [TxnLoginCreate]) (digest 1) ''alice'' ''pw'' root_world))) = [] \<and>
   rows (db (snd (register (test_env [TxnLoginCreate]) (digest 1) ''alice'' ''pw'' root_world)))
     \<noteq> rows (db root_world)"
  unfolding register_alice_login_fault
  by (simp add: new_events_def rows_def root_world_def alice_world_def)

section \<open>A used secret is refused\<close>

lemma error_prefix_is_error: "isErrorMessage (''error: '' @ m)"
  by (simp add: isErrorMessage_def)

lemma mint_entity_success:
  assumes "pathchain env = Some pc" "mint_entity env n w = (Ret (Inr h), w')"
  shows "is_hash64 h \<and> pc_makeEntity pc (ledger w) n = (Ret h, ledger w') \<and> db w' = db w"
proof -
  obtain r l1 where m: "pc_makeEntity pc (ledger w) n = (r, l1)" by (cases "pc_makeEntity pc (ledger w) n")
  with assms(1) have c: "createEntity env n w = (r, log (PcMakeEntity n) (w\<lparr>ledger := l1\<rparr>))"
    by (simp add: createEntity_def)
  from assms(2) c have h: "entityHash_of r = h" "h \<noteq> []" "\<not> isErrorMessage h"
    and w': "w' = log (PcMakeEntity n) (w\<lparr>ledger := l1\<rparr>)"
    unfolding mint_entity_def Let_def
    by (auto split: if_splits dest!: mint_failure_run)
  from h have "r = Ret h"
    using error_prefix_is_error by (cases r) (auto simp: entityHash_of_def)
  with h m w' show ?thesis
    using not_error_message_iff[of h] by (simp add: log_def)
qed

lemma register_transaction_success:
  assumes "pathchain env = Some pc" "register_transaction env n u p tg anc w = (Ret e, w')"
  shows "ledger w' = snd (pc_useSecret pc (ledger w) n) \<and>
         trace w' = trace w @ [DbBegin, DbCommit, PcUseSecret n] \<and>
         (\<exists>t. txn_body env n u p tg anc (db w) = (Ret e, t) \<and> db w' = t)"
  using assms unfolding register_transaction_def Let_def useSecret_def
  by (auto simp: log_def split: if_splits prod.splits outcome.splits)

lemma looks_up_ledger: "looks_up w w' \<Longrightarrow> ledger w' = ledger w"
  by (simp add: looks_up_def)

lemma register_with_pathchain_success:
  assumes pc: "pathchain env = Some pc"
    and run: "register_with_pathchain env n u p w = (Ret (Inr e), w')"
  shows "\<exists>h l1. is_hash64 h \<and> pc_makeEntity pc (ledger w) n = (Ret h, l1) \<and>
           ledger w' = snd (pc_useSecret pc l1 n)"
  using run
proof (cases rule: register_with_pathchain_elim)
  case (txn r1 w1 secretObj w2 ancestorEntity entityHash w3 entityObj w4 r5)
  from txn(8) obtain r5: "r5 = Ret e" by (cases r5) auto
  from txn(1,3) have l2: "ledger w2 = ledger w"
    by (auto dest!: isSecretUsed_looks_up register_lookup_secret_looks_up looks_up_ledger)
  from mint_entity_success[OF pc txn(5)] l2
  have m: "is_hash64 entityHash" "pc_makeEntity pc (ledger w) n = (Ret entityHash, ledger w3)" by auto
  from txn(6) have l4: "ledger w4 = ledger w3"
    by (auto dest!: register_lookup_entity_looks_up looks_up_ledger)
  from register_transaction_success[OF pc txn(7)[unfolded r5]] l4
  have "ledger w' = snd (pc_useSecret pc (ledger w3) n)" by simp
  with m show ?thesis by blast
qed (auto split: outcome.splits)

lemma register_used:
  assumes "pathchain env = Some pc" "username \<noteq> []" "length username \<le> 255" "password \<noteq> []"
    "\<not> Login_usernameExists (db w) username" "normalizeSecretHash secretHash \<noteq> []"
    "pc_isSecretUsed pc (ledger w) (normalizeSecretHash secretHash) = Ret (UBool True)"
  shows "register env secretHash username password w =
           (Failure USED_SECRET, log (PcIsSecretUsed (normalizeSecretHash secretHash)) w)"
proof -
  from assms(6) have "secretHash \<noteq> []" by (auto simp: normalizeSecretHash_def)
  with assms show ?thesis
    by (simp add: register_def register_with_secret_def register_with_pathchain_def isAvailable_def
                  isSecretUsed_def Let_def)
qed

text \<open>
  Claim C2. With the library loaded, a well-formed and unused username and a non-empty
  password: when the usage check of the secret answers \<open>true\<close>, \<open>register\<close> answers
  \<open>USED_SECRET\<close> and the only thing it has done is that one check (the world is the same
  but for the trace: no row, no ledger write). In particular, when the ledger keeps a
  minted secret consumed, a registration that succeeded with a secret makes every further
  registration with it, from any state with that ledger, answer \<open>USED_SECRET\<close>.
\<close>

theorem register_used_secret:
  "(pathchain env = Some pc \<and> username \<noteq> [] \<and> length username \<le> 255 \<and> password \<noteq> [] \<and>
    \<not> Login_usernameExists (db w) username \<and> normalizeSecretHash secretHash \<noteq> [] \<and>
    pc_isSecretUsed pc (ledger w) (normalizeSecretHash secretHash) = Ret (UBool True)
    \<longrightarrow> register env secretHash username password w =
          (Failure USED_SECRET, log (PcIsSecretUsed (normalizeSecretHash secretHash)) w)) \<and>
   (pathchain env = Some pc \<and> consumes_on_mint pc \<and> normalizeSecretHash secretHash \<noteq> [] \<and>
    register env secretHash username password w = (Success token i path username, w1) \<and>
    pathchain env2 = Some pc \<and> ledger w2 = ledger w1 \<and>
    username2 \<noteq> [] \<and> length username2 \<le> 255 \<and> password2 \<noteq> [] \<and>
    \<not> Login_usernameExists (db w2) username2
    \<longrightarrow> register env2 secretHash username2 password2 w2 =
          (Failure USED_SECRET, log (PcIsSecretUsed (normalizeSecretHash secretHash)) w2))"
proof (intro conjI impI)
  assume "pathchain env = Some pc \<and> username \<noteq> [] \<and> length username \<le> 255 \<and> password \<noteq> [] \<and>
    \<not> Login_usernameExists (db w) username \<and> normalizeSecretHash secretHash \<noteq> [] \<and>
    pc_isSecretUsed pc (ledger w) (normalizeSecretHash secretHash) = Ret (UBool True)"
  then show "register env secretHash username password w =
          (Failure USED_SECRET, log (PcIsSecretUsed (normalizeSecretHash secretHash)) w)"
    by (intro register_used) auto
next
  let ?n = "normalizeSecretHash secretHash"
  assume a: "pathchain env = Some pc \<and> consumes_on_mint pc \<and> normalizeSecretHash secretHash \<noteq> [] \<and>
    register env secretHash username password w = (Success token i path username, w1) \<and>
    pathchain env2 = Some pc \<and> ledger w2 = ledger w1 \<and>
    username2 \<noteq> [] \<and> length username2 \<le> 255 \<and> password2 \<noteq> [] \<and>
    \<not> Login_usernameExists (db w2) username2"
  hence ne: "secretHash \<noteq> []" by (auto simp: normalizeSecretHash_def)
  from a ne obtain e where "register_with_pathchain env ?n username password w = (Ret (Inr e), w1)"
    unfolding register_def register_with_secret_def Let_def isAvailable_def
    by (auto split: if_splits prod.splits outcome.splits sum.splits)
  from register_with_pathchain_success[OF _ this] a
  obtain h l1 where "is_hash64 h" "pc_makeEntity pc (ledger w) ?n = (Ret h, l1)"
    "ledger w1 = snd (pc_useSecret pc l1 ?n)" by blast
  with a have "pc_isSecretUsed pc (ledger w2) ?n = Ret (UBool True)"
    unfolding consumes_on_mint_def by metis
  with a show "register env2 secretHash username2 password2 w2 =
          (Failure USED_SECRET, log (PcIsSecretUsed ?n) w2)"
    by (intro register_used) auto
qed

lemma map_of_consume:
  "map_of (consume s xs) k = map_option (\<lambda>v. if k = s then v\<lparr>used := True\<rparr> else v) (map_of xs k)"
  by (induction xs) (auto simp: consume_def)

lemma consumes_on_mint_ledger: "consumes_on_mint ledger_pathchain"
  unfolding consumes_on_mint_def
proof (intro allI impI)
  fix l s h l1
  assume a: "pc_makeEntity ledger_pathchain l s = (Ret h, l1) \<and> is_hash64 h"
  hence m: "ledger_makeEntity l s = (Ret h, l1)" and h: "length h = 64"
    by (auto simp: ledger_pathchain_def is_hash64_def)
  from m h obtain x where x: "map_of (lg_secrets l) s = Some x" "lg_secrets l1 = consume s (lg_secrets l)"
    by (auto simp: ledger_makeEntity_def Let_def split: option.splits if_splits)
  hence "map_of (lg_secrets l1) s = Some (x\<lparr>used := True\<rparr>)" by (simp add: map_of_consume)
  thus "pc_isSecretUsed ledger_pathchain (snd (pc_useSecret ledger_pathchain l1 s)) s = Ret (UBool True)"
    by (simp add: ledger_pathchain_def ledger_useSecret_def ledger_isSecretUsed_def map_of_consume)
qed

text \<open>
  Witness for C2: after bootstrap Alice registers with the root's secret; Bob then tries
  the same secret.
\<close>

theorem register_used_secret_witness:
  "(pathchain (test_env []) = Some ledger_pathchain \<and> ''bob'' \<noteq> [] \<and> length ''bob'' \<le> 255 \<and> ''pw2'' \<noteq> [] \<and>
    \<not> Login_usernameExists (db alice_world) ''bob'' \<and> normalizeSecretHash (digest 1) \<noteq> [] \<and>
    pc_isSecretUsed ledger_pathchain (ledger alice_world) (normalizeSecretHash (digest 1)) = Ret (UBool True) \<and>
    consumes_on_mint ledger_pathchain \<and>
    register (test_env []) (digest 1) ''alice'' ''pw'' root_world =
      (Success ''jwt:alice'' 2 (''entities/'' @ digest 2) ''alice'', alice_world)) \<and>
   register (test_env []) (digest 1) ''bob'' ''pw2'' alice_world =
      (Failure USED_SECRET, log (PcIsSecretUsed (normalizeSecretHash (digest 1))) alice_world)"
proof -
  have h: "pathchain (test_env []) = Some ledger_pathchain \<and> ''bob'' \<noteq> [] \<and> length ''bob'' \<le> 255 \<and> ''pw2'' \<noteq> [] \<and>
    \<not> Login_usernameExists (db alice_world) ''bob'' \<and> normalizeSecretHash (digest 1) \<noteq> [] \<and>
    pc_isSecretUsed ledger_pathchain (ledger alice_world) (normalizeSecretHash (digest 1)) = Ret (UBool True)"
    by (simp add: test_env_def ledger_pathchain_def ledger_isSecretUsed_def alice_world_def
                  Login_usernameExists_def digest_simps)
  have h2: "pathchain (test_env []) = Some ledger_pathchain \<and> consumes_on_mint ledger_pathchain \<and>
    normalizeSecretHash (digest 1) \<noteq> [] \<and>
    register (test_env []) (digest 1) ''alice'' ''pw'' root_world =
      (Success ''jwt:alice'' 2 (''entities/'' @ digest 2) ''alice'', alice_world) \<and>
    pathchain (test_env []) = Some ledger_pathchain \<and> ledger alice_world = ledger alice_world \<and>
    ''bob'' \<noteq> [] \<and> length ''bob'' \<le> 255 \<and> ''pw2'' \<noteq> [] \<and>
    \<not> Login_usernameExists (db alice_world) ''bob''"
    using h consumes_on_mint_ledger register_alice by simp
  have first: "register (test_env []) (digest 1) ''bob'' ''pw2'' alice_world =
      (Failure USED_SECRET, log (PcIsSecretUsed (normalizeSecretHash (digest 1))) alice_world)"
    using register_used_secret[of "test_env []" ledger_pathchain "''bob''" "''pw2''" alice_world "digest 1",
             THEN conjunct1] h by blast
  have second: "register (test_env []) (digest 1) ''bob'' ''pw2'' alice_world =
      (Failure USED_SECRET, log (PcIsSecretUsed (normalizeSecretHash (digest 1))) alice_world)"
    using register_used_secret[of "test_env []" ledger_pathchain "''alice''" "''pw''" root_world "digest 1"
             "''jwt:alice''" 2 "''entities/'' @ digest 2" alice_world "test_env []" alice_world
             "''bob''" "''pw2''", THEN conjunct2] h2 by blast
  from h h2 first second show ?thesis by blast
qed

section \<open>The return value of the mint\<close>

lemma appends_setup_trans:
  "appends is_setup_event w w1 \<Longrightarrow> appends is_setup_event w1 w2 \<Longrightarrow> appends is_setup_event w w2"
  by (rule appends_trans)

lemma looks_up_setup: "looks_up w w' \<Longrightarrow> appends is_setup_event w w'"
  unfolding looks_up_def by (auto elim!: appends_mono simp: is_setup_event_def)

lemma createPioneer_setup: "createPioneer env w = (r, w') \<Longrightarrow> appends is_setup_event w w'"
  by (drule createPioneer_run) (auto simp: appends_def list_all_iff is_setup_event_def)

lemma same_trace_setup: "trace w' = trace w \<Longrightarrow> appends is_setup_event w w'"
  by (simp add: appends_def)

lemma initializeSystem_setup: "initializeSystem env w = (r, w') \<Longrightarrow> appends is_setup_event w w'"
proof -
  assume a: "initializeSystem env w = (r, w')"
  have upd: "\<And>v d. appends is_setup_event v (v\<lparr>db := d\<rparr>)" by (simp add: same_trace_setup)
  show ?thesis
    using a unfolding initializeSystem_def Let_def
    apply (auto split: option.splits prod.splits outcome.splits if_splits obj_res.splits
             dest!: firstSecretFile_looks_up createPioneer_setup getPioneer_looks_up
                    find_pioneer_secret_looks_up looks_up_setup
             intro: appends_setup_trans appends_refl)
    apply (drule record_pioneer_secret_trace)
    apply (metis appends_setup_trans same_trace_setup upd)
    done
qed

lemma register_bootstrap_setup: "register_bootstrap env w = (r, w') \<Longrightarrow> appends is_setup_event w w'"
  unfolding register_bootstrap_def
  by (auto split: option.splits prod.splits outcome.splits if_splits
           dest!: initializeSystem_setup markAsUsed_trace
           intro: appends_refl appends_setup_trans same_trace_setup)

lemma setup_no_mint: "appends is_setup_event w w' \<Longrightarrow> PcMakeEntity n \<notin> set (new_events w w')"
  by (auto simp: appends_def new_events_def list_all_iff is_setup_event_def is_lookup_def)

lemma looks_up_no_mint: "looks_up w w' \<Longrightarrow> PcMakeEntity n \<notin> set (new_events w w')"
  by (auto dest!: looks_up_setup setup_no_mint)

text \<open>What \<open>mint_entity\<close> answers, read off the library's return value.\<close>

lemma mint_entity_exact:
  assumes pc: "pathchain env = Some pc"
    and res: "pc_makeEntity pc (ledger w) n = (res, l1)"
    and run: "mint_entity env n w = (r, w')"
  shows "db w' = db w \<and> ledger w' = l1 \<and>
         (\<exists>evs. trace w' = trace w @ PcMakeEntity n # evs \<and> list_all is_lookup evs) \<and>
         r = (let entityHash = entityHash_of res in
              if is_hash64 entityHash then Ret (Inr entityHash)
              else if entityHash = [] then Ret (Inl ENTITY_RETRIEVAL_FAILED)
              else if (str_includes entityHash ''used'' \<or> str_includes entityHash ''already'') \<and>
                      pc_isSecretUsed pc l1 n = Ret (UBool True) then Ret (Inl USED_SECRET)
              else (case (if str_includes entityHash ''used'' \<or> str_includes entityHash ''already''
                          then pc_isSecretUsed pc l1 n else Ret UOther) of
                      Throw m \<Rightarrow> Throw m
                    | Ret x \<Rightarrow>
                        if str_includes entityHash ''Updater'' \<or>
                           str_includes entityHash ''not identified'' \<or>
                           str_includes entityHash ''not found''
                        then Ret (Inl INVALID_SECRET) else Ret (Inl ENTITY_RETRIEVAL_FAILED)))"
proof -
  let ?w1 = "log (PcMakeEntity n) (w\<lparr>ledger := l1\<rparr>)"
  from pc res have c: "createEntity env n w = (res, ?w1)"
    by (simp add: createEntity_def)
  have u: "\<And>v. isSecretUsed env n v = (pc_isSecretUsed pc (ledger v) n, log (PcIsSecretUsed n) v)"
    using pc by (simp add: isSecretUsed_def)
  have lk: "is_lookup (PcIsSecretUsed n)" by (simp add: is_lookup_def)
  show ?thesis
  proof (cases "is_hash64 (entityHash_of res)")
    case True
    with not_error_message_iff[of "entityHash_of res"] run c show ?thesis
      by (auto simp: mint_entity_def Let_def log_def)
  next
    case False
    show ?thesis
    proof (cases "entityHash_of res = []")
      case True
      with False run c show ?thesis by (auto simp: mint_entity_def Let_def log_def)
    next
      case ne: False
      with False not_error_message_iff[of "entityHash_of res"] have "isErrorMessage (entityHash_of res)"
        by simp
      with ne run c have "mint_failure env n (entityHash_of res) ?w1 = (r, w')"
        by (simp add: mint_entity_def Let_def)
      thus ?thesis using False ne lk
        unfolding mint_failure_def Let_def u
        by (auto simp: log_def split: if_splits outcome.splits)
    qed
  qed
qed

lemma register_lookup_entity_first:
  assumes "pathchain env = Some pc" "register_lookup_entity env h a w = (r, w')"
  shows "\<exists>evs. trace w' = trace w @ PcGetEntityObj h [] # evs"
proof -
  let ?w1 = "log (PcGetEntityObj h []) w"
  from assms(1) have g: "getEntity env h [] w = (pc_getEntityObj pc (ledger w) h [], ?w1)"
    by (simp add: getEntity_def)
  have "looks_up ?w1 w'"
    using assms(2) unfolding register_lookup_entity_def g
    by (auto split: outcome.splits if_splits prod.splits
             dest!: getEntity_looks_up getObject_looks_up intro: looks_up_refl looks_up_trans)
  thus ?thesis by (auto simp: looks_up_def appends_def log_def)
qed

lemma register_transaction_extends:
  "register_transaction env n u p tg anc w = (r, w') \<Longrightarrow> \<exists>evs. trace w' = trace w @ evs"
  by (drule register_transaction_cases) auto

lemma register_with_secret_unfold:
  assumes "pathchain env = Some pc" "secretHash \<noteq> []"
    "register env secretHash username password w = (r, w')" "w' \<noteq> w"
  shows "\<exists>r0. register_with_pathchain env (normalizeSecretHash secretHash) username password w = (r0, w') \<and>
          r = (case r0 of Throw m \<Rightarrow> Failure DATABASE_ERROR
               | Ret (Inl c) \<Rightarrow> Failure c
               | Ret (Inr entity) \<Rightarrow>
                   Success (generateToken env (e_id entity) username (e_path entity))
                     (e_id entity) (e_path entity) username)"
  using assms unfolding register_def register_with_secret_def Let_def isAvailable_def
  by (auto split: if_splits prod.splits outcome.splits sum.splits)

text \<open>
  Claim C3, amended. In a registration that called the mint (the library is loaded), the
  string the call returned, or \<open>error: {message}\<close> when it threw, is read as follows. It
  is a success exactly when it is 64 hexadecimal characters: the run goes on to fetch the
  new entity. Any other string is a failure, nothing is written to the database, and the
  answer is: \<open>ENTITY_RETRIEVAL_FAILED\<close> for the empty string; \<open>USED_SECRET\<close> when the
  text contains \<open>used\<close> or \<open>already\<close> and the usage check, asked again, answers
  \<open>true\<close> (\<open>DATABASE_ERROR\<close> when that check throws); otherwise \<open>INVALID_SECRET\<close> when
  the text contains \<open>Updater\<close>, \<open>not identified\<close> or \<open>not found\<close>; and
  \<open>ENTITY_RETRIEVAL_FAILED\<close> in every other case.
\<close>

theorem register_reads_mint_result:
  assumes pc: "pathchain env = Some pc"
    and run: "register env secretHash username password w = (r, w')"
    and called: "PcMakeEntity (normalizeSecretHash secretHash) \<in> set (new_events w w')"
    and res: "pc_makeEntity pc (ledger w) (normalizeSecretHash secretHash) = (res, l1)"
  shows "let entityHash = entityHash_of res; n = normalizeSecretHash secretHash;
             says_used = (str_includes entityHash ''used'' \<or> str_includes entityHash ''already'')
         in if is_hash64 entityHash
            then PcGetEntityObj entityHash [] \<in> set (new_events w w')
            else db w' = db w \<and> DbBegin \<notin> set (new_events w w') \<and>
                 r = Failure
                   (if entityHash = [] then ENTITY_RETRIEVAL_FAILED
                    else if says_used \<and> pc_isSecretUsed pc l1 n = Ret (UBool True) then USED_SECRET
                    else if says_used \<and> (case pc_isSecretUsed pc l1 n of Throw m \<Rightarrow> True | Ret x \<Rightarrow> False)
                      then DATABASE_ERROR
                    else if str_includes entityHash ''Updater'' \<or>
                            str_includes entityHash ''not identified'' \<or>
                            str_includes entityHash ''not found'' then INVALID_SECRET
                    else ENTITY_RETRIEVAL_FAILED)"
proof -
  let ?n = "normalizeSecretHash secretHash"
  let ?eh = "entityHash_of res"
  from called have neq: "w' \<noteq> w" by (auto simp: new_events_def)
  have ne: "secretHash \<noteq> []"
  proof
    assume "secretHash = []"
    with run neq obtain r0 where "register_bootstrap env w = (r0, w')"
      unfolding register_def by (auto split: if_splits prod.splits outcome.splits sum.splits)
    from setup_no_mint[OF register_bootstrap_setup[OF this]] called show False by simp
  qed
  from register_with_secret_unfold[OF pc ne run neq] obtain r0 where
    rwp: "register_with_pathchain env ?n username password w = (r0, w')" and
    r: "r = (case r0 of Throw m \<Rightarrow> Failure DATABASE_ERROR
               | Ret (Inl c) \<Rightarrow> Failure c
               | Ret (Inr entity) \<Rightarrow>
                   Success (generateToken env (e_id entity) username (e_path entity))
                     (e_id entity) (e_path entity) username)" by blast
  from rwp show ?thesis
  proof (cases rule: register_with_pathchain_elim)
    case (used w1)
    hence "looks_up w w'" by (auto dest!: isSecretUsed_looks_up)
    with called looks_up_no_mint show ?thesis by blast
  next
    case (no_secret r1 w1 so w2)
    hence "looks_up w w'"
      by (auto dest!: isSecretUsed_looks_up register_lookup_secret_looks_up intro: looks_up_trans)
    with called looks_up_no_mint show ?thesis by blast
  next
    case (no_ancestor r1 w1 secretObj w2)
    hence "looks_up w w'"
      by (auto dest!: isSecretUsed_looks_up register_lookup_secret_looks_up intro: looks_up_trans)
    with called looks_up_no_mint show ?thesis by blast
  next
    case (mint_failed r1 w1 secretObj w2 ancestorEntity r3 w3)
    hence l2: "looks_up w w2"
      by (auto dest!: isSecretUsed_looks_up register_lookup_secret_looks_up intro: looks_up_trans)
    then obtain evs1 where 1: "db w2 = db w" "ledger w2 = ledger w" "trace w2 = trace w @ evs1"
      "list_all is_lookup evs1" by (auto simp: looks_up_def appends_def)
    from mint_entity_exact[OF pc _ mint_failed(5)] res 1(2)
    obtain evs2 where 2: "db w3 = db w2" "trace w3 = trace w2 @ PcMakeEntity ?n # evs2"
      "list_all is_lookup evs2" and
      r3: "r3 = (let entityHash = ?eh in
              if is_hash64 entityHash then Ret (Inr entityHash)
              else if entityHash = [] then Ret (Inl ENTITY_RETRIEVAL_FAILED)
              else if (str_includes entityHash ''used'' \<or> str_includes entityHash ''already'') \<and>
                      pc_isSecretUsed pc l1 ?n = Ret (UBool True) then Ret (Inl USED_SECRET)
              else (case (if str_includes entityHash ''used'' \<or> str_includes entityHash ''already''
                          then pc_isSecretUsed pc l1 ?n else Ret UOther) of
                      Throw m \<Rightarrow> Throw m
                    | Ret x \<Rightarrow>
                        if str_includes entityHash ''Updater'' \<or>
                           str_includes entityHash ''not identified'' \<or>
                           str_includes entityHash ''not found''
                        then Ret (Inl INVALID_SECRET) else Ret (Inl ENTITY_RETRIEVAL_FAILED)))"
      by auto
    from r3 mint_failed(6) have nh: "\<not> is_hash64 ?eh" by (auto simp: Let_def)
    from 1 2 mint_failed(8) have ev: "new_events w w' = evs1 @ PcMakeEntity ?n # evs2"
      by (simp add: new_events_def)
    have nodb: "DbBegin \<notin> set (new_events w w')"
      using ev 1(4) 2(3) by (auto simp: list_all_iff is_lookup_def)
    have "r = Failure
                   (if ?eh = [] then ENTITY_RETRIEVAL_FAILED
                    else if (str_includes ?eh ''used'' \<or> str_includes ?eh ''already'') \<and>
                       pc_isSecretUsed pc l1 ?n = Ret (UBool True) then USED_SECRET
                    else if (str_includes ?eh ''used'' \<or> str_includes ?eh ''already'') \<and>
                       (case pc_isSecretUsed pc l1 ?n of Throw m \<Rightarrow> True | Ret x \<Rightarrow> False)
                      then DATABASE_ERROR
                    else if str_includes ?eh ''Updater'' \<or>
                            str_includes ?eh ''not identified'' \<or>
                            str_includes ?eh ''not found'' then INVALID_SECRET
                    else ENTITY_RETRIEVAL_FAILED)"
      using r mint_failed(7) r3 nh
      by (simp add: Let_def split: outcome.splits if_splits)
    with nh nodb 1 2 mint_failed(8) show ?thesis by (simp add: Let_def)
  next
    case (no_entity r1 w1 secretObj w2 ancestorEntity entityHash w3 eo w4)
    hence l2: "ledger w2 = ledger w"
      by (auto dest!: isSecretUsed_looks_up register_lookup_secret_looks_up looks_up_ledger)
    from mint_entity_exact[OF pc _ no_entity(5)] res l2
    have "is_hash64 ?eh \<and> entityHash = ?eh"
      by (auto simp: Let_def split: if_splits outcome.splits)
    moreover
    from no_entity(1,3) have "\<exists>evs. trace w2 = trace w @ evs"
      by (auto dest!: isSecretUsed_looks_up register_lookup_secret_looks_up simp: looks_up_def appends_def)
    moreover from mint_entity_run[OF no_entity(5)] have "\<exists>evs. trace w3 = trace w2 @ evs" by auto
    moreover note register_lookup_entity_first[OF pc no_entity(6)]
    ultimately show ?thesis using no_entity(9) by (auto simp: new_events_def Let_def)
  next
    case (txn r1 w1 secretObj w2 ancestorEntity entityHash w3 entityObj w4 r5)
    hence l2: "ledger w2 = ledger w"
      by (auto dest!: isSecretUsed_looks_up register_lookup_secret_looks_up looks_up_ledger)
    from mint_entity_exact[OF pc _ txn(5)] res l2
    have "is_hash64 ?eh \<and> entityHash = ?eh"
      by (auto simp: Let_def split: if_splits outcome.splits)
    moreover
    from txn(1,3) have "\<exists>evs. trace w2 = trace w @ evs"
      by (auto dest!: isSecretUsed_looks_up register_lookup_secret_looks_up simp: looks_up_def appends_def)
    moreover from mint_entity_run[OF txn(5)] have "\<exists>evs. trace w3 = trace w2 @ evs" by auto
    moreover note register_lookup_entity_first[OF pc txn(6)] register_transaction_extends[OF txn(7)]
    ultimately show ?thesis by (auto simp: new_events_def Let_def)
  qed
qed

lemma register_alice_updater_error:
  "register updater_error_env (digest 1) ''alice'' ''pw'' root_world =
     (Failure INVALID_SECRET,
      root_world\<lparr>trace := [PcIsSecretUsed (digest 1), PcGetSecretObj (digest 1) [],
                            PcMakeEntity (digest 1)]\<rparr>)"
  by (simp add: model_defs ledger_defs digest_simps updater_error_env_def updater_error_pathchain_def
                isErrorMessage_def Let_def)

text \<open>
  Counterexample to C3 as stated: the mint call answers \<open>Updater not identified\<close>, which is
  not a hash and does not speak of prior use, and \<open>register\<close> answers \<open>INVALID_SECRET\<close>:
  neither \<open>USED_SECRET\<close> nor the code's mint-failure code \<open>ENTITY_RETRIEVAL_FAILED\<close>.
\<close>

theorem mint_failure_invalid_secret_counterexample:
  "pc_makeEntity updater_error_pathchain (ledger root_world) (digest 1)
     = (Ret ''Updater not identified'', ledger root_world) \<and>
   \<not> is_hash64 ''Updater not identified'' \<and>
   \<not> str_includes ''Updater not identified'' ''used'' \<and>
   \<not> str_includes ''Updater not identified'' ''already'' \<and>
   fst (register updater_error_env (digest 1) ''alice'' ''pw'' root_world) = Failure INVALID_SECRET \<and>
   fst (register updater_error_env (digest 1) ''alice'' ''pw'' root_world) \<noteq> Failure USED_SECRET \<and>
   fst (register updater_error_env (digest 1) ''alice'' ''pw'' root_world) \<noteq> Failure ENTITY_RETRIEVAL_FAILED"
  unfolding register_alice_updater_error
  by (simp add: updater_error_pathchain_def is_hash64_def)

text \<open>
  Witness for the amended C3: the theorem at that same run, and at Alice's successful
  registration, where the mint call answers a hash.
\<close>

theorem register_reads_mint_result_witness:
  "pathchain updater_error_env = Some updater_error_pathchain \<and>
   PcMakeEntity (normalizeSecretHash (digest 1))
     \<in> set (new_events root_world (snd (register updater_error_env (digest 1) ''alice'' ''pw'' root_world))) \<and>
   pc_makeEntity updater_error_pathchain (ledger root_world) (normalizeSecretHash (digest 1))
     = (Ret ''Updater not identified'', ledger root_world) \<and>
   fst (register updater_error_env (digest 1) ''alice'' ''pw'' root_world) = Failure INVALID_SECRET \<and>
   db (snd (register updater_error_env (digest 1) ''alice'' ''pw'' root_world)) = db root_world"
proof -
  have pc: "pathchain updater_error_env = Some updater_error_pathchain"
    by (simp add: updater_error_env_def)
  have called: "PcMakeEntity (normalizeSecretHash (digest 1))
     \<in> set (new_events root_world (snd (register updater_error_env (digest 1) ''alice'' ''pw'' root_world)))"
    unfolding register_alice_updater_error by (simp add: new_events_def root_world_def digest_simps)
  have res: "pc_makeEntity updater_error_pathchain (ledger root_world) (normalizeSecretHash (digest 1))
     = (Ret ''Updater not identified'', ledger root_world)"
    by (simp add: updater_error_pathchain_def)
  have nh: "\<not> is_hash64 ''Updater not identified''" by (simp add: is_hash64_def)
  from register_reads_mint_result[OF pc surjective_pairing called res] nh
  have "fst (register updater_error_env (digest 1) ''alice'' ''pw'' root_world) = Failure INVALID_SECRET \<and>
        db (snd (register updater_error_env (digest 1) ''alice'' ''pw'' root_world)) = db root_world"
    by (simp add: entityHash_of_def Let_def)
  with pc called res show ?thesis by blast
qed

section \<open>A usage check that does not answer\<close>

lemma register_lookup_secret_exact:
  assumes "pathchain env = Some pc" "register_lookup_secret env n w = (r, w')"
  shows "case secret_object pc (ledger w) n of Some x \<Rightarrow> r = OObj x | None \<Rightarrow> \<not> is_object r"
  using assms unfolding register_lookup_secret_def secret_object_def getSecret_def getObject_def
  by (auto simp: log_def is_object_def is_string_def Let_def
           split: outcome.splits obj_res.splits if_splits prod.splits)

lemma checkSecret_lookup_exact:
  assumes "pathchain env = Some pc" "checkSecret_lookup env n w = (r, w')"
  shows "case secret_object pc (ledger w) n of Some x \<Rightarrow> r = OObj x | None \<Rightarrow> \<not> is_object r"
  using assms unfolding checkSecret_lookup_def secret_object_def getSecret_def getObject_def
  by (auto simp: log_def is_object_def is_string_def Let_def
           split: outcome.splits obj_res.splits if_splits prod.splits)

lemma isSecretUsed_exact:
  "pathchain env = Some pc \<Longrightarrow>
     isSecretUsed env n w = (pc_isSecretUsed pc (ledger w) n, log (PcIsSecretUsed n) w)"
  by (simp add: isSecretUsed_def)

lemma checkSecret_after_failed_usage_check:
  assumes pc: "pathchain env = Some pc"
    and n: "normalizeSecretHash secretInput \<noteq> []"
    and failed: "pc_isSecretUsed pc (ledger w) (normalizeSecretHash secretInput) \<noteq> Ret (UBool True)"
  shows "fst (checkSecret env secretInput w) =
           (case secret_object pc (ledger w) (normalizeSecretHash secretInput) of
              None \<Rightarrow> CheckError INVALID_SECRET
            | Some x \<Rightarrow> Checked True (\<not> used x))"
proof -
  let ?n = "normalizeSecretHash secretInput"
  let ?w1 = "log (PcIsSecretUsed ?n) w"
  from n have ne: "secretInput \<noteq> []" by (auto simp: normalizeSecretHash_def)
  obtain r2 w2 where l: "checkSecret_lookup env ?n ?w1 = (r2, w2)"
    by (cases "checkSecret_lookup env ?n ?w1")
  have "ledger ?w1 = ledger w" by (simp add: log_def)
  with checkSecret_lookup_exact[OF pc l]
  have x: "case secret_object pc (ledger w) ?n of Some x \<Rightarrow> r2 = OObj x | None \<Rightarrow> \<not> is_object r2"
    by simp
  show ?thesis
    using pc ne n failed l x
    unfolding checkSecret_def Let_def isSecretUsed_exact[OF pc] isAvailable_def
    by (auto simp: is_object_def split: outcome.splits used_res.splits bool.splits option.splits obj_res.splits)
qed

lemma register_lookup_secret_found:
  assumes pc: "pathchain env = Some pc"
    and a: "isSecretUsed env n w = (r1, w1)" "register_lookup_secret env n w1 = (x, w2)"
  shows "(case secret_object pc (ledger w) n of Some y \<Rightarrow> x = OObj y | None \<Rightarrow> \<not> is_object x) \<and>
         db w2 = db w \<and> (\<exists>evs. trace w2 = trace w @ evs)"
proof -
  from a have l: "looks_up w w1" "looks_up w1 w2"
    by (auto dest!: isSecretUsed_looks_up register_lookup_secret_looks_up)
  hence "ledger w1 = ledger w" "db w2 = db w" "\<exists>evs. trace w2 = trace w @ evs"
    by (auto simp: looks_up_def appends_def)
  with register_lookup_secret_exact[OF pc a(2)] show ?thesis by simp
qed

lemma mint_entity_logs:
  assumes "pathchain env = Some pc" "mint_entity env n w = (r, w')"
  shows "\<exists>evs. trace w' = trace w @ PcMakeEntity n # evs"
  using mint_entity_exact[OF assms(1) surjective_pairing assms(2)] by blast

lemma register_lookup_entity_extends:
  "register_lookup_entity env h a w = (r, w') \<Longrightarrow> \<exists>evs. trace w' = trace w @ evs"
  by (auto dest!: register_lookup_entity_looks_up simp: looks_up_def appends_def)

lemma register_with_pathchain_mints:
  assumes pc: "pathchain env = Some pc"
    and run: "register_with_pathchain env n u p w = (r, w')"
    and nt: "pc_isSecretUsed pc (ledger w) n \<noteq> Ret (UBool True)"
    and so: "secret_object pc (ledger w) n = Some secretObj"
    and anc: "Entity_findOne_path (db w) (author secretObj) = Some ancestorEntity"
  shows "PcMakeEntity n \<in> set (new_events w w')"
  using run
proof (cases rule: register_with_pathchain_elim)
  case (used w1)
  with nt isSecretUsed_exact[OF pc, of n w] show ?thesis by simp
next
  case (no_secret r1 w1 x w2)
  from register_lookup_secret_found[OF pc no_secret(1,3)] no_secret(4) so show ?thesis
    by (simp add: is_object_def)
next
  case (no_ancestor r1 w1 x w2)
  from register_lookup_secret_found[OF pc no_ancestor(1,3)] no_ancestor(4) so anc show ?thesis
    by simp
next
  case (mint_failed r1 w1 x w2 a r3 w3)
  from register_lookup_secret_found[OF pc mint_failed(1,3)]
  obtain e1 where "trace w2 = trace w @ e1" by blast
  moreover from mint_entity_logs[OF pc mint_failed(5)]
  obtain e2 where "trace w3 = trace w2 @ PcMakeEntity n # e2" by blast
  ultimately show ?thesis using mint_failed(8) by (simp add: new_events_def)
next
  case (no_entity r1 w1 x w2 a entityHash w3 eo w4)
  from register_lookup_secret_found[OF pc no_entity(1,3)]
  obtain e1 where "trace w2 = trace w @ e1" by blast
  moreover from mint_entity_logs[OF pc no_entity(5)]
  obtain e2 where "trace w3 = trace w2 @ PcMakeEntity n # e2" by blast
  moreover from register_lookup_entity_extends[OF no_entity(6)]
  obtain e3 where "trace w4 = trace w3 @ e3" by blast
  ultimately show ?thesis using no_entity(9) by (simp add: new_events_def)
next
  case (txn r1 w1 x w2 a entityHash w3 entityObj w4 r5)
  from register_lookup_secret_found[OF pc txn(1,3)]
  obtain e1 where "trace w2 = trace w @ e1" by blast
  moreover from mint_entity_logs[OF pc txn(5)]
  obtain e2 where "trace w3 = trace w2 @ PcMakeEntity n # e2" by blast
  moreover from register_lookup_entity_extends[OF txn(6)]
  obtain e3 where "trace w4 = trace w3 @ e3" by blast
  moreover from register_transaction_extends[OF txn(7)]
  obtain e4 where "trace w' = trace w4 @ e4" by blast
  ultimately show ?thesis by (simp add: new_events_def)
qed

text \<open>
  Claim C5, amended. When the usage check of a secret throws or answers a string (a
  well-formed, unused username, a non-empty password, the library loaded), the callers
  look the secret up instead of stopping. If neither \<open>getSecret\<close> nor \<open>getObject\<close>
  yields its object, \<open>register\<close> answers \<open>INVALID_SECRET\<close>, having only read, and
  \<open>checkSecret\<close> answers \<open>INVALID_SECRET\<close> too. If a lookup yields the object,
  \<open>checkSecret\<close> answers valid, with \<open>unused\<close> read off the object, and \<open>register\<close>
  goes on as with an unused secret: it answers \<open>ANCESTOR_NOT_FOUND\<close>, having only read,
  when the object's author has no entity row, and calls the mint when it has one. So
  \<open>register\<close> calls the mint exactly when a lookup yielded the secret's object and its
  author has an entity row.
\<close>

theorem failed_usage_check_handling:
  assumes pc: "pathchain env = Some pc"
    and valid: "username \<noteq> []" "length username \<le> 255" "password \<noteq> []"
      "\<not> Login_usernameExists (db w) username"
    and n: "normalizeSecretHash secretHash \<noteq> []"
    and failed: "(\<exists>m. pc_isSecretUsed pc (ledger w) (normalizeSecretHash secretHash) = Throw m) \<or>
                 (\<exists>e. pc_isSecretUsed pc (ledger w) (normalizeSecretHash secretHash) = Ret (UStr e))"
    and run: "register env secretHash username password w = (r, w')"
  shows "(secret_object pc (ledger w) (normalizeSecretHash secretHash) = None \<longrightarrow>
            r = Failure INVALID_SECRET \<and> looks_up w w' \<and>
            fst (checkSecret env secretHash w) = CheckError INVALID_SECRET) \<and>
         (PcMakeEntity (normalizeSecretHash secretHash) \<in> set (new_events w w') \<longrightarrow>
            (\<exists>secretObj ancestorEntity.
               secret_object pc (ledger w) (normalizeSecretHash secretHash) = Some secretObj \<and>
               Entity_findOne_path (db w) (author secretObj) = Some ancestorEntity)) \<and>
         (secret_object pc (ledger w) (normalizeSecretHash secretHash) = Some secretObj \<longrightarrow>
            fst (checkSecret env secretHash w) = Checked True (\<not> used secretObj)) \<and>
         (secret_object pc (ledger w) (normalizeSecretHash secretHash) = Some secretObj \<and>
          Entity_findOne_path (db w) (author secretObj) = None \<longrightarrow>
            r = Failure ANCESTOR_NOT_FOUND \<and> looks_up w w') \<and>
         (secret_object pc (ledger w) (normalizeSecretHash secretHash) = Some secretObj \<and>
          Entity_findOne_path (db w) (author secretObj) = Some ancestorEntity \<longrightarrow>
            PcMakeEntity (normalizeSecretHash secretHash) \<in> set (new_events w w'))"
proof -
  let ?n = "normalizeSecretHash secretHash"
  from failed have nt: "pc_isSecretUsed pc (ledger w) ?n \<noteq> Ret (UBool True)" by auto
  from n have ne: "secretHash \<noteq> []" by (auto simp: normalizeSecretHash_def)
  from run valid ne n pc obtain r0 where
    rwp: "register_with_pathchain env ?n username password w = (r0, w')" and
    r: "r = (case r0 of Throw m \<Rightarrow> Failure DATABASE_ERROR
               | Ret (Inl c) \<Rightarrow> Failure c
               | Ret (Inr entity) \<Rightarrow>
                   Success (generateToken env (e_id entity) username (e_path entity))
                     (e_id entity) (e_path entity) username)"
    unfolding register_def register_with_secret_def Let_def isAvailable_def
    by (auto split: if_splits prod.splits outcome.splits sum.splits)
  have chk: "fst (checkSecret env secretHash w) =
           (case secret_object pc (ledger w) ?n of
              None \<Rightarrow> CheckError INVALID_SECRET
            | Some x \<Rightarrow> Checked True (\<not> used x))"
    by (rule checkSecret_after_failed_usage_check[OF pc n nt])
  have mints: "secret_object pc (ledger w) ?n = Some secretObj \<and>
          Entity_findOne_path (db w) (author secretObj) = Some ancestorEntity \<longrightarrow>
            PcMakeEntity ?n \<in> set (new_events w w')"
    using register_with_pathchain_mints[OF pc rwp nt] by blast
  have checks: "secret_object pc (ledger w) ?n = Some secretObj \<longrightarrow>
            fst (checkSecret env secretHash w) = Checked True (\<not> used secretObj)"
    using chk by simp
  have rest: "(secret_object pc (ledger w) ?n = None \<longrightarrow>
            r = Failure INVALID_SECRET \<and> looks_up w w' \<and>
            fst (checkSecret env secretHash w) = CheckError INVALID_SECRET) \<and>
         (PcMakeEntity ?n \<in> set (new_events w w') \<longrightarrow>
            (\<exists>secretObj ancestorEntity.
               secret_object pc (ledger w) ?n = Some secretObj \<and>
               Entity_findOne_path (db w) (author secretObj) = Some ancestorEntity)) \<and>
         (secret_object pc (ledger w) ?n = Some secretObj \<and>
          Entity_findOne_path (db w) (author secretObj) = None \<longrightarrow>
            r = Failure ANCESTOR_NOT_FOUND \<and> looks_up w w')"
    using rwp
  proof (cases rule: register_with_pathchain_elim)
    case (used w1)
    with nt isSecretUsed_exact[OF pc, of ?n w] show ?thesis by simp
  next
    case (no_secret r1 w1 so w2)
    hence lu: "looks_up w w'"
      by (auto dest!: isSecretUsed_looks_up register_lookup_secret_looks_up intro: looks_up_trans)
    from register_lookup_secret_found[OF pc no_secret(1,3)] no_secret(4)
    have "secret_object pc (ledger w) ?n = None"
      by (auto simp: is_object_def split: option.splits)
    with lu looks_up_no_mint[OF lu] r no_secret(5) chk show ?thesis by simp
  next
    case (no_ancestor r1 w1 x w2)
    hence lu: "looks_up w w'"
      by (auto dest!: isSecretUsed_looks_up register_lookup_secret_looks_up intro: looks_up_trans)
    from register_lookup_secret_found[OF pc no_ancestor(1,3)]
    have "secret_object pc (ledger w) ?n = Some x" "db w2 = db w"
      by (auto simp: is_object_def split: option.splits)
    with lu looks_up_no_mint[OF lu] r no_ancestor(5) show ?thesis by simp
  next
    case (mint_failed r1 w1 x w2 a r3 w3)
    from register_lookup_secret_found[OF pc mint_failed(1,3)] mint_failed(4) show ?thesis
      by (auto simp: is_object_def split: option.splits)
  next
    case (no_entity r1 w1 x w2 a entityHash w3 eo w4)
    from register_lookup_secret_found[OF pc no_entity(1,3)] no_entity(4) show ?thesis
      by (auto simp: is_object_def split: option.splits)
  next
    case (txn r1 w1 x w2 a entityHash w3 entityObj w4 r5)
    from register_lookup_secret_found[OF pc txn(1,3)] txn(4) show ?thesis
      by (auto simp: is_object_def split: option.splits)
  qed
  from rest checks mints show ?thesis by blast
qed

lemma register_alice_usage_throws:
  "register usage_throws_env (digest 1) ''alice'' ''pw'' root_world =
     (Success ''jwt:alice'' 2 (''entities/'' @ digest 2) ''alice'', alice_world)"
  by (simp add: model_defs ledger_defs digest_simps usage_throws_env_def usage_throws_pathchain_def
                alice_world_def Let_def)

text \<open>
  Counterexample to C5 as stated: the usage check of the root's secret throws, and
  \<open>register\<close> goes on to mint an entity with it and succeeds.
\<close>

theorem usage_check_throws_counterexample:
  "pc_isSecretUsed usage_throws_pathchain (ledger root_world) (digest 1) = Throw ''read failed'' \<and>
   PcMakeEntity (digest 1)
     \<in> set (new_events root_world (snd (register usage_throws_env (digest 1) ''alice'' ''pw'' root_world))) \<and>
   fst (register usage_throws_env (digest 1) ''alice'' ''pw'' root_world)
     = Success ''jwt:alice'' 2 (''entities/'' @ digest 2) ''alice''"
  unfolding register_alice_usage_throws
  by (simp add: usage_throws_pathchain_def new_events_def root_world_def alice_world_def)

lemma normalize_nonexistent: "normalizeSecretHash ''nonexistent-hash'' = ''nonexistent-hash''"
  by (simp add: normalizeSecretHash_def trim_def is_space_def)

lemma nonexistent_not_digest:
  "digest k \<noteq> ''nonexistent-hash''" "''nonexistent-hash'' \<noteq> digest k"
proof -
  have "False" if "digest k = ''nonexistent-hash''"
  proof -
    from that have "length (digest k) = length ''nonexistent-hash''" by (rule arg_cong)
    thus False by (simp add: length_digest)
  qed
  thus "digest k \<noteq> ''nonexistent-hash''" "''nonexistent-hash'' \<noteq> digest k" by metis+
qed

text \<open>
  Witness for the amended C5: Carol registers with an address the ledger does not know,
  whose usage check answers the message \<open>Secret not found\<close>; and Alice registers with
  the root's secret when its usage check throws.
\<close>

theorem failed_usage_check_handling_witness:
  "pathchain (test_env []) = Some ledger_pathchain \<and>
   normalizeSecretHash ''nonexistent-hash'' \<noteq> [] \<and>
   \<not> Login_usernameExists (db root_world) ''carol'' \<and>
   pc_isSecretUsed ledger_pathchain (ledger root_world) (normalizeSecretHash ''nonexistent-hash'')
     = Ret (UStr ''Secret not found'') \<and>
   secret_object ledger_pathchain (ledger root_world) (normalizeSecretHash ''nonexistent-hash'') = None \<and>
   fst (register (test_env []) ''nonexistent-hash'' ''carol'' ''pw'' root_world) = Failure INVALID_SECRET \<and>
   fst (checkSecret (test_env []) ''nonexistent-hash'' root_world) = CheckError INVALID_SECRET \<and>
   pathchain usage_throws_env = Some usage_throws_pathchain \<and>
   normalizeSecretHash (digest 1) \<noteq> [] \<and>
   \<not> Login_usernameExists (db root_world) ''alice'' \<and>
   pc_isSecretUsed usage_throws_pathchain (ledger root_world) (normalizeSecretHash (digest 1))
     = Throw ''read failed'' \<and>
   secret_object usage_throws_pathchain (ledger root_world) (normalizeSecretHash (digest 1))
     = Some \<lparr>tag = ''secrets/'' @ digest 1, author = root_path, ancestor = [], used = False\<rparr> \<and>
   Entity_findOne_path (db root_world) root_path = Some root_row \<and>
   fst (checkSecret usage_throws_env (digest 1) root_world) = Checked True True \<and>
   PcMakeEntity (normalizeSecretHash (digest 1)) \<in> set (new_events root_world
      (snd (register usage_throws_env (digest 1) ''alice'' ''pw'' root_world)))"
proof -
  have pc: "pathchain (test_env []) = Some ledger_pathchain" by (simp add: test_env_def)
  have n: "normalizeSecretHash ''nonexistent-hash'' \<noteq> []" by (simp add: normalize_nonexistent)
  have fresh: "\<not> Login_usernameExists (db root_world) ''carol''"
    "\<not> Login_usernameExists (db root_world) ''alice''"
    by (simp_all add: Login_usernameExists_def root_world_def)
  have u: "pc_isSecretUsed ledger_pathchain (ledger root_world) (normalizeSecretHash ''nonexistent-hash'')
     = Ret (UStr ''Secret not found'')"
    by (simp add: normalize_nonexistent ledger_pathchain_def ledger_isSecretUsed_def root_world_def
                  root_ledger_def nonexistent_not_digest)
  have none: "secret_object ledger_pathchain (ledger root_world) (normalizeSecretHash ''nonexistent-hash'') = None"
    by (simp add: normalize_nonexistent secret_object_def ledger_pathchain_def ledger_getSecretObj_def
                  ledger_getObj_def root_world_def root_ledger_def nonexistent_not_digest)
  from failed_usage_check_handling[OF pc _ _ _ fresh(1) n _ surjective_pairing, of "''pw''"] u none
  have a: "fst (register (test_env []) ''nonexistent-hash'' ''carol'' ''pw'' root_world) = Failure INVALID_SECRET \<and>
        fst (checkSecret (test_env []) ''nonexistent-hash'' root_world) = CheckError INVALID_SECRET"
    by simp
  have pc2: "pathchain usage_throws_env = Some usage_throws_pathchain"
    by (simp add: usage_throws_env_def)
  have n2: "normalizeSecretHash (digest 1) \<noteq> []" by (simp add: digest_simps)
  have u2: "pc_isSecretUsed usage_throws_pathchain (ledger root_world) (normalizeSecretHash (digest 1))
     = Throw ''read failed''"
    by (simp add: usage_throws_pathchain_def)
  have so: "secret_object usage_throws_pathchain (ledger root_world) (normalizeSecretHash (digest 1))
     = Some \<lparr>tag = ''secrets/'' @ digest 1, author = root_path, ancestor = [], used = False\<rparr>"
    by (simp add: digest_simps secret_object_def usage_throws_pathchain_def ledger_pathchain_def
                  ledger_getSecretObj_def root_world_def root_ledger_def)
  have anc: "Entity_findOne_path (db root_world) root_path = Some root_row"
    by (simp add: Entity_findOne_path_def root_world_def root_row_def)
  from failed_usage_check_handling[OF pc2 _ _ _ fresh(2) n2 _ surjective_pairing,
      where password = "''pw''"
        and secretObj = "\<lparr>tag = ''secrets/'' @ digest 1, author = root_path, ancestor = [], used = False\<rparr>"
        and ancestorEntity = root_row] u2 so anc
  have b: "fst (checkSecret usage_throws_env (digest 1) root_world) = Checked True True \<and>
     PcMakeEntity (normalizeSecretHash (digest 1)) \<in> set (new_events root_world
        (snd (register usage_throws_env (digest 1) ''alice'' ''pw'' root_world)))"
    by simp
  from pc n fresh u none a pc2 n2 u2 so anc b show ?thesis by blast
qed

section \<open>The confirmation comes after the commit\<close>

lemma register_without_pathchain_cases:
  assumes "register_without_pathchain env s n u p w = (r, w')"
  shows "((\<exists>m. r = Throw m) \<and> appends is_setup_event w w') \<or>
         (\<exists>w1 anc. appends is_setup_event w w1 \<and>
            (Entity_findPioneer (db w) = Some anc \<and> w1 = w \<or>
             Entity_findPioneer (db w) = None \<and> (\<exists>ir. initializeSystem env w = (Ret ir, w1) \<and> anc = init_pioneer ir)) \<and>
            \<not> fails env TxnBegin \<and>
            ((\<exists>m t. fallback_txn_body env s n u p anc (db w1) = (Throw m, t) \<and> r = Throw m \<and>
                db w' = t \<and> ledger w' = ledger w1 \<and>
                trace w' = trace w1 @ [DbBegin, DbRollback]) \<or>
             (\<exists>e t. fallback_txn_body env s n u p anc (db w1) = (Ret e, t) \<and> r = Ret (Inr e) \<and>
                db w' = t \<and> ledger w' = ledger w1 \<and> trace w' = trace w1 @ [DbBegin, DbCommit])))"
proof (cases "Entity_findPioneer (db w)")
  case (Some anc)
  with assms show ?thesis
    unfolding register_without_pathchain_def Let_def
    by (auto simp: log_def rollback_def appends_refl split: if_splits prod.splits outcome.splits)
next
  case None
  obtain r1 w1 where i: "initializeSystem env w = (r1, w1)" by (cases "initializeSystem env w")
  note s = initializeSystem_setup[OF i]
  show ?thesis
  proof (cases r1)
    case (Throw m)
    with assms None i s show ?thesis
      unfolding register_without_pathchain_def by auto
  next
    case (Ret ir)
    with assms None i s show ?thesis
      unfolding register_without_pathchain_def Let_def
      by (auto simp: log_def rollback_def split: if_splits prod.splits outcome.splits)
  qed
qed

text \<open>Nothing but the call after the commit looks at the library's \<open>useSecret\<close>.\<close>

lemma without_confirmation_wrappers:
  assumes "pathchain env = Some pc"
  shows "createPioneer (without_confirmation env pc f) = createPioneer env"
    "getPioneer (without_confirmation env pc f) = getPioneer env"
    "createEntity (without_confirmation env pc f) = createEntity env"
    "getEntity (without_confirmation env pc f) = getEntity env"
    "getSecret (without_confirmation env pc f) = getSecret env"
    "isSecretUsed (without_confirmation env pc f) = isSecretUsed env"
    "getObject (without_confirmation env pc f) = getObject env"
    "fails (without_confirmation env pc f) = fails env"
    "isAvailable (without_confirmation env pc f) = isAvailable env"
    "now (without_confirmation env pc f) = now env"
    "hashPassword (without_confirmation env pc f) = hashPassword env"
    "generateToken (without_confirmation env pc f) = generateToken env"
    "fs_secretFiles (without_confirmation env pc f) = fs_secretFiles env"
  using assms
  by (auto simp: without_confirmation_def createPioneer_def getPioneer_def createEntity_def getEntity_def
                 getSecret_def isSecretUsed_def getObject_def fails_def isAvailable_def fun_eq_iff)

lemma without_confirmation_steps:
  assumes "pathchain env = Some pc"
  shows "register_lookup_secret (without_confirmation env pc f) = register_lookup_secret env"
    "mint_entity (without_confirmation env pc f) = mint_entity env"
    "register_lookup_entity (without_confirmation env pc f) = register_lookup_entity env"
    "txn_body (without_confirmation env pc f) = txn_body env"
    "register_bootstrap (without_confirmation env pc f) = register_bootstrap env"
proof -
  note w = without_confirmation_wrappers[OF assms, of f]
  show "register_lookup_secret (without_confirmation env pc f) = register_lookup_secret env"
    unfolding fun_eq_iff register_lookup_secret_def w by simp
  have 0: "mint_failure (without_confirmation env pc f) = mint_failure env"
    unfolding fun_eq_iff mint_failure_def w by simp
  show "mint_entity (without_confirmation env pc f) = mint_entity env"
    unfolding fun_eq_iff mint_entity_def w 0 by simp
  show "register_lookup_entity (without_confirmation env pc f) = register_lookup_entity env"
    unfolding fun_eq_iff register_lookup_entity_def w by simp
  show "txn_body (without_confirmation env pc f) = txn_body env"
    unfolding fun_eq_iff txn_body_def w by simp
  have 1: "firstSecretFile (without_confirmation env pc f) = firstSecretFile env"
    unfolding fun_eq_iff firstSecretFile_def w by simp
  have 2: "find_pioneer_secret (without_confirmation env pc f) = find_pioneer_secret env"
    unfolding fun_eq_iff find_pioneer_secret_def w by simp
  have 3: "record_pioneer_secret (without_confirmation env pc f) = record_pioneer_secret env"
    unfolding fun_eq_iff record_pioneer_secret_def w by simp
  have 4: "markAsUsed (without_confirmation env pc f) = markAsUsed env"
    unfolding fun_eq_iff markAsUsed_def w by simp
  have 5: "initializeSystem (without_confirmation env pc f) = initializeSystem env"
    unfolding fun_eq_iff initializeSystem_def w 1 2 3 by simp
  show "register_bootstrap (without_confirmation env pc f) = register_bootstrap env"
    unfolding fun_eq_iff register_bootstrap_def 4 5 by simp
qed

lemma register_transaction_without_confirmation:
  assumes "pathchain env = Some pc"
  shows "fst (register_transaction (without_confirmation env pc f) n u p tg anc w)
           = fst (register_transaction env n u p tg anc w) \<and>
         db (snd (register_transaction (without_confirmation env pc f) n u p tg anc w))
           = db (snd (register_transaction env n u p tg anc w))"
  unfolding register_transaction_def Let_def without_confirmation_steps[OF assms]
    without_confirmation_wrappers[OF assms] useSecret_def
  using assms
  by (auto simp: without_confirmation_def log_def split: prod.splits outcome.splits)

lemma register_with_pathchain_without_confirmation:
  assumes "pathchain env = Some pc"
  shows "fst (register_with_pathchain (without_confirmation env pc f) n u p w)
           = fst (register_with_pathchain env n u p w) \<and>
         db (snd (register_with_pathchain (without_confirmation env pc f) n u p w))
           = db (snd (register_with_pathchain env n u p w))"
proof -
  obtain r w' where run: "register_with_pathchain env n u p w = (r, w')"
    by (cases "register_with_pathchain env n u p w")
  note s = without_confirmation_steps[OF assms, of f] without_confirmation_wrappers[OF assms, of f]
  let ?env = "without_confirmation env pc f"
  from run show ?thesis
  proof (cases rule: register_with_pathchain_elim)
    case (txn r1 w1 secretObj w2 ancestorEntity entityHash w3 entityObj w4 r5)
    obtain r6 w6 where t: "register_transaction ?env n u p (tag entityObj) ancestorEntity w4 = (r6, w6)"
      by (cases "register_transaction ?env n u p (tag entityObj) ancestorEntity w4")
    from register_transaction_without_confirmation[OF assms, of f n u p "tag entityObj" ancestorEntity w4]
      t txn(7)
    have eq: "r6 = r5" "db w6 = db w'" by auto
    have "register_with_pathchain ?env n u p w = (case r6 of Throw m \<Rightarrow> Throw m | Ret e \<Rightarrow> Ret (Inr e), w6)"
      using txn t unfolding register_with_pathchain_def s Let_def
      by (auto split: outcome.splits used_res.splits bool.splits)
    with run txn(8) eq show ?thesis by simp
  next
    case (used w1)
    hence "register_with_pathchain ?env n u p w = (r, w')"
      unfolding register_with_pathchain_def s by simp
    with run show ?thesis by simp
  next
    case (no_secret r1 w1 so w2)
    hence "register_with_pathchain ?env n u p w = (r, w')"
      unfolding register_with_pathchain_def s Let_def
      by (auto simp: is_object_def split: outcome.splits used_res.splits bool.splits obj_res.splits)
    with run show ?thesis by simp
  next
    case (no_ancestor r1 w1 secretObj w2)
    hence "register_with_pathchain ?env n u p w = (r, w')"
      unfolding register_with_pathchain_def s Let_def
      by (auto split: outcome.splits used_res.splits bool.splits)
    with run show ?thesis by simp
  next
    case (mint_failed r1 w1 secretObj w2 ancestorEntity r3 w3)
    hence "register_with_pathchain ?env n u p w = (r, w')"
      unfolding register_with_pathchain_def s Let_def
      by (auto split: outcome.splits used_res.splits bool.splits sum.splits)
    with run show ?thesis by simp
  next
    case (no_entity r1 w1 secretObj w2 ancestorEntity entityHash w3 eo w4)
    hence "register_with_pathchain ?env n u p w = (r, w')"
      unfolding register_with_pathchain_def s Let_def
      by (auto simp: is_object_def split: outcome.splits used_res.splits bool.splits obj_res.splits)
    with run show ?thesis by simp
  qed
qed

lemma register_without_confirmation:
  assumes "pathchain env = Some pc"
  shows "fst (register (without_confirmation env pc f) secretHash username password w)
           = fst (register env secretHash username password w) \<and>
         db (snd (register (without_confirmation env pc f) secretHash username password w))
           = db (snd (register env secretHash username password w))"
proof (cases "secretHash = []")
  case True
  have "register (without_confirmation env pc f) [] username password w = register env [] username password w"
    unfolding register_def without_confirmation_steps[OF assms] without_confirmation_wrappers[OF assms]
    by simp
  with True show ?thesis by simp
next
  case False
  have a: "isAvailable env" "isAvailable (without_confirmation env pc f)"
    using assms by (simp_all add: isAvailable_def without_confirmation_def)
  from register_with_pathchain_without_confirmation[OF assms,
         of f "normalizeSecretHash secretHash" username password w]
  show ?thesis
    using False a
    unfolding register_def register_with_secret_def Let_def without_confirmation_wrappers[OF assms]
    by (auto simp: without_confirmation_def split: prod.splits outcome.splits sum.splits)
qed

lemma register_transaction_commit_cases:
  assumes "register_transaction env n u p tg anc w = (r, w')"
  shows "((\<exists>m. r = Throw m) \<and> (trace w' = trace w \<or> trace w' = trace w @ [DbBegin, DbRollback])) \<or>
         ((\<exists>e. r = Ret e) \<and>
          (trace w' = trace w @ [DbBegin, DbCommit] \<and> pathchain env = None \<or>
           trace w' = trace w @ [DbBegin, DbCommit, PcUseSecret n]))"
  using assms unfolding register_transaction_def Let_def useSecret_def
  by (auto simp: log_def split: prod.splits outcome.splits if_splits option.splits)

lemma pre_txn_events:
  assumes "pre_txn w w'"
  shows "\<exists>evs. trace w' = trace w @ evs \<and> DbCommit \<notin> set evs \<and> (\<forall>h. PcUseSecret h \<notin> set evs)"
proof -
  from assms obtain evs where e: "trace w' = trace w @ evs" "list_all is_pre_txn_event evs"
    by (auto simp: pre_txn_def appends_def)
  have "\<not> is_pre_txn_event DbCommit" "\<And>h. \<not> is_pre_txn_event (PcUseSecret h)"
    by (simp_all add: is_pre_txn_event_def is_lookup_def)
  with e show ?thesis by (auto simp: list_all_iff)
qed

lemma setup_events:
  assumes "appends is_setup_event w w'"
  shows "\<exists>evs. trace w' = trace w @ evs \<and> DbCommit \<notin> set evs \<and> (\<forall>h. PcUseSecret h \<notin> set evs)"
proof -
  from assms obtain evs where e: "trace w' = trace w @ evs" "list_all is_setup_event evs"
    by (auto simp: appends_def)
  have "\<not> is_setup_event DbCommit" "\<And>h. \<not> is_setup_event (PcUseSecret h)"
    by (simp_all add: is_setup_event_def is_lookup_def)
  with e show ?thesis by (auto simp: list_all_iff)
qed

lemma register_with_pathchain_commit:
  assumes "register_with_pathchain env n u p w = (r, w')"
  shows "(PcUseSecret h \<in> set (new_events w w') \<longrightarrow>
            (\<exists>pre. new_events w w' = pre @ [DbCommit, PcUseSecret h])) \<and>
         (DbCommit \<in> set (new_events w w') \<longrightarrow> (\<exists>e. r = Ret (Inr e))) \<and>
         (pathchain env \<noteq> None \<and> DbCommit \<in> set (new_events w w') \<longrightarrow>
            PcUseSecret n \<in> set (new_events w w'))"
proof -
  from register_with_pathchain_run[OF assms]
  consider (pre) "pre_txn w w'"
    | (txn) tg anc w4 r4 where "pre_txn w w4" "register_transaction env n u p tg anc w4 = (r4, w')"
        "r = (case r4 of Throw m \<Rightarrow> Throw m | Ret e \<Rightarrow> Ret (Inr e))"
    by blast
  then show ?thesis
  proof cases
    case pre
    from pre_txn_events[OF pre] show ?thesis by (auto simp: new_events_def)
  next
    case txn
    from pre_txn_events[OF txn(1)] obtain evs where
      e: "trace w4 = trace w @ evs" "DbCommit \<notin> set evs" "\<forall>h. PcUseSecret h \<notin> set evs" by blast
    from register_transaction_commit_cases[OF txn(2)] e txn(3) show ?thesis
      by (auto simp: new_events_def)
  qed
qed

lemma register_without_pathchain_commit:
  assumes "register_without_pathchain env s n u p w = (r, w')"
  shows "(\<forall>h. PcUseSecret h \<notin> set (new_events w w')) \<and>
         (DbCommit \<in> set (new_events w w') \<longrightarrow> (\<exists>e. r = Ret (Inr e)))"
proof -
  from register_without_pathchain_cases[OF assms]
  consider (early) "appends is_setup_event w w'"
    | (txn) w1 where "appends is_setup_event w w1"
        "(\<exists>m. r = Throw m) \<and> trace w' = trace w1 @ [DbBegin, DbRollback] \<or>
         (\<exists>e. r = Ret (Inr e)) \<and> trace w' = trace w1 @ [DbBegin, DbCommit]"
    by blast
  then show ?thesis
  proof cases
    case early
    from setup_events[OF early] show ?thesis by (auto simp: new_events_def)
  next
    case txn
    from setup_events[OF txn(1)] txn(2) show ?thesis by (auto simp: new_events_def)
  qed
qed

text \<open>
  Claim C8. In every run of \<open>register\<close>: a call of the library's \<open>useSecret\<close> comes
  right after the commit of the transaction and nowhere else; a run that committed answers
  success for the given username and, when the library is loaded, has made that call for
  the secret it was given; and neither the answer nor the database depends on what
  \<open>useSecret\<close> does: with any other behaviour of it, throwing included, \<open>register\<close>
  returns the same result and leaves the same database.
\<close>

theorem confirmation_after_commit:
  assumes run: "register env secretHash username password w = (r, w')"
  shows "(PcUseSecret h \<in> set (new_events w w') \<longrightarrow>
            (\<exists>pre. new_events w w' = pre @ [DbCommit, PcUseSecret h])) \<and>
         (DbCommit \<in> set (new_events w w') \<longrightarrow> (\<exists>token i path. r = Success token i path username)) \<and>
         (pathchain env = Some pc \<longrightarrow>
            fst (register (without_confirmation env pc f) secretHash username password w) = r \<and>
            db (snd (register (without_confirmation env pc f) secretHash username password w)) = db w') \<and>
         (pathchain env = Some pc \<and> DbCommit \<in> set (new_events w w') \<longrightarrow>
            PcUseSecret (normalizeSecretHash secretHash) \<in> set (new_events w w'))"
proof -
  have third: "pathchain env = Some pc \<longrightarrow>
            fst (register (without_confirmation env pc f) secretHash username password w) = r \<and>
            db (snd (register (without_confirmation env pc f) secretHash username password w)) = db w'"
    using register_without_confirmation[of env pc f secretHash username password w] run by simp
  have first: "(PcUseSecret h \<in> set (new_events w w') \<longrightarrow>
            (\<exists>pre. new_events w w' = pre @ [DbCommit, PcUseSecret h])) \<and>
         (DbCommit \<in> set (new_events w w') \<longrightarrow> (\<exists>token i path. r = Success token i path username)) \<and>
         (pathchain env = Some pc \<and> DbCommit \<in> set (new_events w w') \<longrightarrow>
            PcUseSecret (normalizeSecretHash secretHash) \<in> set (new_events w w'))"
  proof (cases "w' = w")
    case True
    then show ?thesis by (simp add: new_events_def)
  next
    case neq: False
    show ?thesis
    proof (cases "secretHash = []")
      case True
      with run neq obtain r0 where "register_bootstrap env w = (r0, w')"
        unfolding register_def by (auto split: if_splits prod.splits outcome.splits sum.splits)
      from setup_events[OF register_bootstrap_setup[OF this]] show ?thesis
        by (auto simp: new_events_def)
    next
      case False
      let ?n = "normalizeSecretHash secretHash"
      from run neq False obtain r0 where
        r0: "(if isAvailable env then register_with_pathchain env ?n username password w
              else register_without_pathchain env secretHash ?n username password w) = (r0, w')" and
        r: "r = (case r0 of Throw m \<Rightarrow> Failure DATABASE_ERROR
               | Ret (Inl c) \<Rightarrow> Failure c
               | Ret (Inr entity) \<Rightarrow>
                   Success (generateToken env (e_id entity) username (e_path entity))
                     (e_id entity) (e_path entity) username)"
        unfolding register_def register_with_secret_def Let_def
        by (auto split: if_splits prod.splits outcome.splits sum.splits)
      show ?thesis
      proof (cases "isAvailable env")
        case True
        with r0 register_with_pathchain_commit[of env ?n username password w r0 w' h] r
        show ?thesis by auto
      next
        case False
        with r0 register_without_pathchain_commit[of env secretHash ?n username password w r0 w'] r
        show ?thesis by (auto simp: isAvailable_def)
      qed
    qed
  qed
  from first third show ?thesis by blast
qed

text \<open>
  Witness for C8: Alice's registration after bootstrap commits and then confirms the
  root's secret, and the same registration with a library whose \<open>useSecret\<close> throws
  answers the same and leaves the same rows.
\<close>

theorem confirmation_after_commit_witness:
  "pathchain (test_env []) = Some ledger_pathchain \<and>
   DbCommit \<in> set (new_events root_world
      (snd (register (test_env []) (digest 1) ''alice'' ''pw'' root_world))) \<and>
   PcUseSecret (normalizeSecretHash (digest 1)) \<in> set (new_events root_world
      (snd (register (test_env []) (digest 1) ''alice'' ''pw'' root_world))) \<and>
   (\<exists>pre. new_events root_world (snd (register (test_env []) (digest 1) ''alice'' ''pw'' root_world))
           = pre @ [DbCommit, PcUseSecret (normalizeSecretHash (digest 1))]) \<and>
   (\<exists>token i path. fst (register (test_env []) (digest 1) ''alice'' ''pw'' root_world)
           = Success token i path ''alice'') \<and>
   confirmation_throws (ledger root_world) (digest 1) = (Throw ''write failed'', ledger root_world) \<and>
   fst (register (without_confirmation (test_env []) ledger_pathchain confirmation_throws)
          (digest 1) ''alice'' ''pw'' root_world)
     = fst (register (test_env []) (digest 1) ''alice'' ''pw'' root_world) \<and>
   db (snd (register (without_confirmation (test_env []) ledger_pathchain confirmation_throws)
          (digest 1) ''alice'' ''pw'' root_world))
     = db (snd (register (test_env []) (digest 1) ''alice'' ''pw'' root_world))"
proof -
  let ?w' = "snd (register (test_env []) (digest 1) ''alice'' ''pw'' root_world)"
  have c: "DbCommit \<in> set (new_events root_world ?w')"
    unfolding register_alice by (simp add: new_events_def root_world_def alice_world_def)
  have pc: "pathchain (test_env []) = Some ledger_pathchain" by (simp add: test_env_def)
  have t: "confirmation_throws (ledger root_world) (digest 1) = (Throw ''write failed'', ledger root_world)"
    by (simp add: confirmation_throws_def)
  note inst = confirmation_after_commit[where env = "test_env []" and secretHash = "digest 1"
      and username = "''alice''" and password = "''pw''" and w = root_world
      and h = "normalizeSecretHash (digest 1)" and pc = ledger_pathchain and f = confirmation_throws,
      OF surjective_pairing]
  from inst pc c have u: "PcUseSecret (normalizeSecretHash (digest 1)) \<in> set (new_events root_world ?w')"
    by blast
  from inst pc c u t show ?thesis by blast
qed

section \<open>Registration with the library not loaded\<close>

text \<open>
  Claim C10, amended. With the library not loaded, a well-formed and unused username, a
  non-empty password and a non-empty secret input, \<open>register\<close> makes no call to the ledger
  and does one of three things. When the normalised form of the input (trimmed, a leading
  \<open>secrets/\<close> removed) is empty, it answers \<open>INVALID_SECRET\<close> and nothing changes.
  Otherwise, when there is no pioneer row, it answers \<open>DATABASE_ERROR\<close> and nothing
  changes (the pioneer cannot be made without the library). Otherwise, when no database
  statement fails, it answers success, and what it has done is one transaction that added
  an entity row with path \<open>entities/{normalised secret}\<close> and the pioneer as ancestor, a
  secret row already marked used, and a login row.
\<close>

theorem register_without_library:
  assumes "pathchain env = None"
    and "username \<noteq> []" "length username \<le> 255" "password \<noteq> []"
    and "\<not> Login_usernameExists (db w) username"
    and "secretHash \<noteq> []"
  shows "(normalizeSecretHash secretHash = [] \<longrightarrow>
            register env secretHash username password w = (Failure INVALID_SECRET, w)) \<and>
         (normalizeSecretHash secretHash \<noteq> [] \<and> Entity_findPioneer (db w) = None \<longrightarrow>
            register env secretHash username password w = (Failure DATABASE_ERROR, w)) \<and>
         (normalizeSecretHash secretHash \<noteq> [] \<and> Entity_findPioneer (db w) = Some pioneer \<and>
          faults env = [] \<longrightarrow>
            register env secretHash username password w =
              (Success (generateToken env (Suc (entity_seq (db w))) username
                          (''entities/'' @ normalizeSecretHash secretHash))
                 (Suc (entity_seq (db w))) (''entities/'' @ normalizeSecretHash secretHash) username,
               registered_without_library env (normalizeSecretHash secretHash) username password pioneer w))"
proof -
  have 1: "normalizeSecretHash secretHash = [] \<longrightarrow>
            register env secretHash username password w = (Failure INVALID_SECRET, w)"
    using assms by (simp add: register_def register_with_secret_def)
  have 2: "normalizeSecretHash secretHash \<noteq> [] \<and> Entity_findPioneer (db w) = None \<longrightarrow>
            register env secretHash username password w = (Failure DATABASE_ERROR, w)"
    using assms
    by (simp add: register_def register_with_secret_def register_without_pathchain_def isAvailable_def
                  initializeSystem_def createPioneer_def)
  have 3: "normalizeSecretHash secretHash \<noteq> [] \<and> Entity_findPioneer (db w) = Some pioneer \<and>
          faults env = [] \<longrightarrow>
            register env secretHash username password w =
              (Success (generateToken env (Suc (entity_seq (db w))) username
                          (''entities/'' @ normalizeSecretHash secretHash))
                 (Suc (entity_seq (db w))) (''entities/'' @ normalizeSecretHash secretHash) username,
               registered_without_library env (normalizeSecretHash secretHash) username password pioneer w)"
  proof (intro impI, elim conjE)
    assume n: "normalizeSecretHash secretHash \<noteq> []"
      and p: "Entity_findPioneer (db w) = Some pioneer"
      and fl: "faults env = []"
    have f: "\<And>op. \<not> fails env op" using fl by (simp add: fails_def)
    have b: "fallback_txn_body env secretHash (normalizeSecretHash secretHash) username password pioneer (db w)
       = (Ret \<lparr>e_id = Suc (entity_seq (db w)), e_path = ''entities/'' @ normalizeSecretHash secretHash,
                 e_ancestor_id = Some (e_id pioneer)\<rparr>,
          db (registered_without_library env (normalizeSecretHash secretHash) username password pioneer w))"
      using assms(5) n
      by (simp add: fallback_txn_body_def f Entity_create_def Secret_create_def Login_create_def
                    Login_usernameExists_def registered_without_library_def OwnerType_ENTITY_def Let_def)
    show "register env secretHash username password w =
              (Success (generateToken env (Suc (entity_seq (db w))) username
                          (''entities/'' @ normalizeSecretHash secretHash))
                 (Suc (entity_seq (db w))) (''entities/'' @ normalizeSecretHash secretHash) username,
               registered_without_library env (normalizeSecretHash secretHash) username password pioneer w)"
      using assms n p
      by (simp add: register_def register_with_secret_def register_without_pathchain_def isAvailable_def
                    f b log_def registered_without_library_def Let_def)
  qed
  from 1 2 3 show ?thesis by blast
qed

lemma normalize_space: "normalizeSecretHash '' '' = []"
  by (simp add: normalizeSecretHash_def trim_def is_space_def)

lemma normalize_prefix_only: "normalizeSecretHash ''secrets/'' = []"
  by (simp add: normalizeSecretHash_def trim_def is_space_def)

text \<open>
  Counterexample to C10 as stated, with the library not loaded: the one-space secret and
  the secret \<open>secrets/\<close> are non-empty inputs and are refused as \<open>INVALID_SECRET\<close>; and in
  the empty system, where there is no pioneer row, a secret is answered with
  \<open>DATABASE_ERROR\<close>.
\<close>

theorem register_without_library_counterexample:
  "\<not> isAvailable offline_env \<and> '' '' \<noteq> [] \<and> ''secrets/'' \<noteq> [] \<and>
   \<not> Login_usernameExists (db root_world) ''alice'' \<and>
   register offline_env '' '' ''alice'' ''pw'' root_world = (Failure INVALID_SECRET, root_world) \<and>
   register offline_env ''secrets/'' ''alice'' ''pw'' root_world = (Failure INVALID_SECRET, root_world) \<and>
   register offline_env ''anything'' ''alice'' ''pw'' fresh_world = (Failure DATABASE_ERROR, fresh_world)"
  by (simp add: offline_env_def test_env_def isAvailable_def register_def register_with_secret_def
                normalize_space normalize_prefix_only Login_usernameExists_def root_world_def fresh_world_def
                register_without_pathchain_def normalizeSecretHash_def trim_def is_space_def
                Entity_findPioneer_def initializeSystem_def createPioneer_def Let_def)

text \<open>
  Witness for the amended C10, with the library not loaded: Alice registers with the word
  \<open>anything\<close> after bootstrap, with a blank secret after bootstrap, and with the secret
  \<open>secrets/abc\<close> in the empty system.
\<close>

theorem register_without_library_witness:
  "pathchain offline_env = None \<and> faults offline_env = [] \<and>
   \<not> Login_usernameExists (db root_world) ''alice'' \<and>
   \<not> Login_usernameExists (db fresh_world) ''alice'' \<and>
   Entity_findPioneer (db root_world) = Some root_row \<and>
   Entity_findPioneer (db fresh_world) = None \<and>
   normalizeSecretHash ''anything'' = ''anything'' \<and>
   normalizeSecretHash ''  secrets/ '' = [] \<and>
   normalizeSecretHash ''secrets/abc'' = ''abc'' \<and>
   register offline_env ''anything'' ''alice'' ''pw'' root_world =
     (Success ''jwt:alice'' 2 ''entities/anything'' ''alice'',
      registered_without_library offline_env ''anything'' ''alice'' ''pw'' root_row root_world) \<and>
   register offline_env ''  secrets/ '' ''alice'' ''pw'' root_world = (Failure INVALID_SECRET, root_world) \<and>
   register offline_env ''secrets/abc'' ''alice'' ''pw'' fresh_world = (Failure DATABASE_ERROR, fresh_world)"
proof -
  have 1: "pathchain offline_env = None" "faults offline_env = []"
    by (simp_all add: offline_env_def test_env_def)
  have 2: "normalizeSecretHash ''anything'' = ''anything''" "normalizeSecretHash ''  secrets/ '' = []"
    "normalizeSecretHash ''secrets/abc'' = ''abc''"
    by (simp_all add: normalizeSecretHash_def trim_def is_space_def)
  have 3: "\<not> Login_usernameExists (db root_world) ''alice''"
    "\<not> Login_usernameExists (db fresh_world) ''alice''"
    by (simp_all add: Login_usernameExists_def root_world_def fresh_world_def)
  have 4: "Entity_findPioneer (db root_world) = Some root_row" "Entity_findPioneer (db fresh_world) = None"
    by (simp_all add: Entity_findPioneer_def root_world_def root_row_def fresh_world_def)
  have 5: "generateToken offline_env (Suc (entity_seq (db root_world))) ''alice'' ''entities/anything'' = ''jwt:alice''"
    "Suc (entity_seq (db root_world)) = 2"
    by (simp_all add: offline_env_def test_env_def root_world_def)
  from register_without_library[of offline_env "''alice''" "''pw''" root_world "''anything''" root_row]
    1 2 3 4 5
  have a: "register offline_env ''anything'' ''alice'' ''pw'' root_world =
     (Success ''jwt:alice'' 2 ''entities/anything'' ''alice'',
      registered_without_library offline_env ''anything'' ''alice'' ''pw'' root_row root_world)"
    by simp
  from register_without_library[of offline_env "''alice''" "''pw''" root_world "''  secrets/ ''"]
    1 2 3
  have b: "register offline_env ''  secrets/ '' ''alice'' ''pw'' root_world = (Failure INVALID_SECRET, root_world)"
    by simp
  from register_without_library[of offline_env "''alice''" "''pw''" fresh_world "''secrets/abc''"]
    1 2 3 4
  have c: "register offline_env ''secrets/abc'' ''alice'' ''pw'' fresh_world = (Failure DATABASE_ERROR, fresh_world)"
    by simp
  from 1 2 3 4 a b c show ?thesis by blast
qed

section \<open>Bootstrap on an empty secret\<close>

lemma findPioneer_None_iff: "Entity_findPioneer d = None \<longleftrightarrow> root_count d = 0"
  by (auto simp: Entity_findPioneer_def root_count_def split: list.splits)

lemma findPioneer_append_root:
  assumes "Entity_findPioneer d = None" "e_ancestor_id r = None"
  shows "Entity_findPioneer (d\<lparr>entity_tbl := entity_tbl d @ [r], entity_seq := k\<rparr>) = Some r"
  using assms by (auto simp: Entity_findPioneer_def split: list.splits)

lemma findPioneer_cong:
  "entity_tbl d' = entity_tbl d \<Longrightarrow> Entity_findPioneer d' = Entity_findPioneer d"
  by (simp add: Entity_findPioneer_def)

lemma find_snoc:
  "find P (xs @ [y]) = (case find P xs of Some x \<Rightarrow> Some x | None \<Rightarrow> if P y then Some y else None)"
  by (induction xs) auto

lemma find_map_save:
  assumes "find (\<lambda>r. s_path r = p) xs = Some s" "s_path s' = p" "s_id s' = s_id s"
  shows "find (\<lambda>r. s_path r = p) (map (\<lambda>x. if s_id x = s_id s' then s' else x) xs) = Some s'"
  using assms
proof (induction xs)
  case Nil
  then show ?case by simp
next
  case (Cons x xs)
  then show ?case by (cases "s_path x = p") auto
qed

lemma markAsUsed_marks:
  assumes "\<not> fails env MarkAsUsedSave" "Secret_findByPath (db w) p = Some s"
  shows "\<exists>w'. markAsUsed env s w = (Ret (), w') \<and>
           Secret_findByPath (db w') p = Some (s\<lparr>s_used_at := Some (now env)\<rparr>) \<and>
           entity_tbl (db w') = entity_tbl (db w) \<and> login_tbl (db w') = login_tbl (db w) \<and>
           trace w' = trace w \<and> ledger w' = ledger w"
proof -
  from assms(2) have "s_path s = p"
    by (auto simp: Secret_findByPath_def dest: find_Some_iff[THEN iffD1])
  with assms find_map_save[of p "secret_tbl (db w)" s "s\<lparr>s_used_at := Some (now env)\<rparr>"]
  show ?thesis
    by (simp add: markAsUsed_def Secret_save_def Secret_findByPath_def)
qed

lemma record_pioneer_secret_records:
  assumes "\<not> fails env InitSecretFind" "\<not> fails env InitSecretCreate"
  shows "\<exists>s w'. record_pioneer_secret env p pioneer w = (Some s, w') \<and>
           Secret_findByPath (db w') p = Some s \<and>
           entity_tbl (db w') = entity_tbl (db w) \<and> login_tbl (db w') = login_tbl (db w) \<and>
           entity_seq (db w') = entity_seq (db w) \<and>
           trace w' = trace w \<and> ledger w' = ledger w"
proof (cases "Secret_findByPath (db w) p")
  case None
  hence "find (\<lambda>r. s_path r = p) (secret_tbl (db w)) = None" by (simp add: Secret_findByPath_def)
  hence "\<And>s. s_path s = p \<Longrightarrow> find (\<lambda>r. s_path r = p) (secret_tbl (db w) @ [s]) = Some s"
    by (simp add: find_snoc)
  with assms None show ?thesis
    by (simp add: record_pioneer_secret_def Secret_create_def Secret_findByPath_def Let_def)
next
  case (Some s)
  with assms show ?thesis by (simp add: record_pioneer_secret_def)
qed

lemma find_pioneer_secret_first:
  assumes "fs_secretFiles env (ledger w) ph = Ret (Some (sh # rest))" "sh \<noteq> []"
  shows "fst (find_pioneer_secret env ph w) = sh"
  using assms by (simp add: find_pioneer_secret_def Let_def split: prod.splits)

lemma initializeSystem_existing:
  assumes "Entity_findPioneer (db w) = Some p"
  shows "\<exists>h. initializeSystem env w =
           (Ret \<lparr>init_pioneer = p, init_secret = None, init_isNew = False, init_secretHash = h\<rparr>,
            log (FsSecretFiles (last_segment (e_path p))) w)"
  using assms by (simp add: initializeSystem_def firstSecretFile_def Let_def)

lemma initializeSystem_returns:
  assumes "initializeSystem env w = (Ret ir, w')"
  shows "Entity_findPioneer (db w') = Some (init_pioneer ir) \<and>
         (if init_isNew ir
          then Entity_findPioneer (db w) = None \<and> e_ancestor_id (init_pioneer ir) = None \<and>
               entity_tbl (db w') = entity_tbl (db w) @ [init_pioneer ir]
          else db w' = db w \<and> ledger w' = ledger w \<and>
               trace w' = trace w @ [FsSecretFiles (last_segment (e_path (init_pioneer ir)))])"
proof (cases "Entity_findPioneer (db w)")
  case (Some p)
  from initializeSystem_existing[OF Some, of env] assms Some show ?thesis
    by (auto simp: log_def)
next
  case None
  from assms None obtain ph w1 po w2 where
    c: "createPioneer env w = (Ret ph, w1)" and g: "getPioneer env ph w1 = (Ret (OObj po), w2)"
    and nf: "\<not> fails env InitEntityCreate"
    unfolding initializeSystem_def
    by (auto split: prod.splits outcome.splits if_splits obj_res.splits)
  let ?row = "\<lparr>e_id = Suc (entity_seq (db w2)), e_path = tag po, e_ancestor_id = None\<rparr>"
  let ?d3 = "(db w2)\<lparr>entity_tbl := entity_tbl (db w2) @ [?row], entity_seq := Suc (entity_seq (db w2))\<rparr>"
  obtain sh w4 where f: "find_pioneer_secret env ph (w2\<lparr>db := ?d3\<rparr>) = (sh, w4)"
    by (cases "find_pioneer_secret env ph (w2\<lparr>db := ?d3\<rparr>)")
  obtain s w5 where r: "record_pioneer_secret env (''secrets/'' @ sh) ?row w4 = (s, w5)"
    by (cases "record_pioneer_secret env (''secrets/'' @ sh) ?row w4")
  from assms None c g nf f r have ir: "ir = \<lparr>init_pioneer = ?row, init_secret = s, init_isNew = True,
      init_secretHash = Some sh\<rparr>" and w': "w' = w5"
    unfolding initializeSystem_def
    by (auto simp: Entity_create_def Let_def split: if_splits)
  from c g have d2: "db w2 = db w"
    by (auto dest!: createPioneer_run getPioneer_looks_up simp: looks_up_def)
  from f have d4: "db w4 = ?d3" by (auto dest!: find_pioneer_secret_looks_up simp: looks_up_def)
  from record_pioneer_secret_trace[OF r] d4 have e5: "entity_tbl (db w5) = entity_tbl (db w2) @ [?row]"
    by simp
  have "Entity_findPioneer (db w5) = Some ?row"
    using findPioneer_append_root[of "db w2" ?row "Suc (entity_seq (db w2))"] None d2
      findPioneer_cong[of "db w5" ?d3] e5 by simp
  with ir w' e5 d2 None show ?thesis by simp
qed

lemma initializeSystem_throws:
  assumes "initializeSystem env w = (Throw m, w')"
  shows "db w' = db w"
proof -
  from assms show ?thesis
    unfolding initializeSystem_def
    by (auto simp: Let_def split: option.splits prod.splits outcome.splits if_splits obj_res.splits
             dest!: createPioneer_run getPioneer_looks_up simp: looks_up_def)
qed

lemma initializeSystem_bootstrap:
  assumes none: "Entity_findPioneer (db w) = None"
    and pc: "pathchain env = Some pc"
    and mk: "pc_makePioneer pc (ledger w) = (Ret pioneerHash, l1)"
    and ph: "pioneerHash \<noteq> []" "\<not> str_includes pioneerHash ''error''"
    and po: "pc_getPioneerObj pc l1 pioneerHash = Ret (OObj pioneerObj)"
    and fs: "fs_secretFiles env l1 pioneerHash = Ret (Some (secretFile # files))" "secretFile \<noteq> []"
    and nf: "faults env = []"
  shows "\<exists>s w1. initializeSystem env w =
           (Ret \<lparr>init_pioneer = \<lparr>e_id = Suc (entity_seq (db w)), e_path = tag pioneerObj, e_ancestor_id = None\<rparr>,
                 init_secret = Some s, init_isNew = True, init_secretHash = Some secretFile\<rparr>, w1) \<and>
           Secret_findByPath (db w1) (''secrets/'' @ secretFile) = Some s"
proof -
  let ?root = "\<lparr>e_id = Suc (entity_seq (db w)), e_path = tag pioneerObj, e_ancestor_id = None\<rparr>"
  let ?w1 = "log PcMakePioneer (w\<lparr>ledger := l1\<rparr>)"
  let ?w2 = "log (PcGetPioneerObj pioneerHash) ?w1"
  let ?w3 = "?w2\<lparr>db := (db w)\<lparr>entity_tbl := entity_tbl (db w) @ [?root],
                                 entity_seq := Suc (entity_seq (db w))\<rparr>\<rparr>"
  have f: "\<And>op. \<not> fails env op" using nf by (simp add: fails_def)
  have c: "createPioneer env w = (Ret pioneerHash, ?w1)"
    using pc mk by (simp add: createPioneer_def)
  have g: "getPioneer env pioneerHash ?w1 = (Ret (OObj pioneerObj), ?w2)"
    using pc po by (simp add: getPioneer_def log_def)
  have "ledger ?w3 = l1" by (simp add: log_def)
  with fs have sh: "fst (find_pioneer_secret env pioneerHash ?w3) = secretFile"
    by (intro find_pioneer_secret_first) simp_all
  obtain w4 where w4: "find_pioneer_secret env pioneerHash ?w3 = (secretFile, w4)"
    using sh by (cases "find_pioneer_secret env pioneerHash ?w3") simp
  from record_pioneer_secret_records[OF f f, of "''secrets/'' @ secretFile" ?root w4]
  obtain s w5 where r: "record_pioneer_secret env (''secrets/'' @ secretFile) ?root w4 = (Some s, w5)"
    and s: "Secret_findByPath (db w5) (''secrets/'' @ secretFile) = Some s" by blast
  have "initializeSystem env w =
           (Ret \<lparr>init_pioneer = ?root, init_secret = Some s, init_isNew = True,
                 init_secretHash = Some secretFile\<rparr>, w5)"
    using none c g ph f w4 r
    by (simp add: initializeSystem_def Entity_create_def Let_def log_def)
  with s show ?thesis by blast
qed

text \<open>
  Claim C4. A registration without a secret (a well-formed, unused username and a
  non-empty password): when a root row exists it answers \<open>INVALID_SECRET\<close> and nothing
  changes. When none exists and the bootstrap goes through (the library creates the
  pioneer and returns its record, the pioneer's secrets directory lists its secret, no
  database statement fails), it answers success for the new root row itself (the row
  with null ancestor, now the one \<open>findPioneer\<close> returns), and the secret row of the
  pioneer's secret carries a \<open>used_at\<close> time.
\<close>

theorem register_without_secret:
  assumes valid: "username \<noteq> []" "length username \<le> 255" "password \<noteq> []"
    "\<not> Login_usernameExists (db w) username"
  shows "(Entity_findPioneer (db w) = Some pioneer \<longrightarrow>
            register env [] username password w = (Failure INVALID_SECRET, w)) \<and>
         (Entity_findPioneer (db w) = None \<and> pathchain env = Some pc \<and>
          pc_makePioneer pc (ledger w) = (Ret pioneerHash, l1) \<and>
          pioneerHash \<noteq> [] \<and> \<not> str_includes pioneerHash ''error'' \<and>
          pc_getPioneerObj pc l1 pioneerHash = Ret (OObj pioneerObj) \<and>
          fs_secretFiles env l1 pioneerHash = Ret (Some (secretFile # files)) \<and> secretFile \<noteq> [] \<and>
          faults env = [] \<and>
          register env [] username password w = (r, w')
          \<longrightarrow> (let root = \<lparr>e_id = Suc (entity_seq (db w)), e_path = tag pioneerObj, e_ancestor_id = None\<rparr>
               in r = Success (generateToken env (e_id root) username (e_path root))
                        (e_id root) (e_path root) username \<and>
                  entity_tbl (db w') = entity_tbl (db w) @ [root] \<and>
                  Entity_findPioneer (db w') = Some root \<and>
                  (\<exists>s. Secret_findByPath (db w') (''secrets/'' @ secretFile) = Some s \<and>
                       s_used_at s = Some (now env))))"
proof (intro conjI impI)
  assume "Entity_findPioneer (db w) = Some pioneer"
  with valid show "register env [] username password w = (Failure INVALID_SECRET, w)"
    by (simp add: register_def register_bootstrap_def)
next
  let ?root = "\<lparr>e_id = Suc (entity_seq (db w)), e_path = tag pioneerObj, e_ancestor_id = None\<rparr>"
  assume a: "Entity_findPioneer (db w) = None \<and> pathchain env = Some pc \<and>
          pc_makePioneer pc (ledger w) = (Ret pioneerHash, l1) \<and>
          pioneerHash \<noteq> [] \<and> \<not> str_includes pioneerHash ''error'' \<and>
          pc_getPioneerObj pc l1 pioneerHash = Ret (OObj pioneerObj) \<and>
          fs_secretFiles env l1 pioneerHash = Ret (Some (secretFile # files)) \<and> secretFile \<noteq> [] \<and>
          faults env = [] \<and>
          register env [] username password w = (r, w')"
  hence f: "\<not> fails env MarkAsUsedSave" by (simp add: fails_def)
  from a initializeSystem_bootstrap[of w env pc pioneerHash l1 pioneerObj secretFile files]
  obtain s w1 where i: "initializeSystem env w =
           (Ret \<lparr>init_pioneer = ?root, init_secret = Some s, init_isNew = True,
                 init_secretHash = Some secretFile\<rparr>, w1)"
    and s: "Secret_findByPath (db w1) (''secrets/'' @ secretFile) = Some s" by blast
  from initializeSystem_returns[OF i]
  have p1: "Entity_findPioneer (db w1) = Some ?root" "entity_tbl (db w1) = entity_tbl (db w) @ [?root]"
    by simp_all
  from markAsUsed_marks[OF f s] obtain w2 where
    m: "markAsUsed env s w1 = (Ret (), w2)"
    and s2: "Secret_findByPath (db w2) (''secrets/'' @ secretFile) = Some (s\<lparr>s_used_at := Some (now env)\<rparr>)"
    and e2: "entity_tbl (db w2) = entity_tbl (db w1)" by blast
  from a valid i m have "r = Success (generateToken env (e_id ?root) username (e_path ?root))
                        (e_id ?root) (e_path ?root) username" "w' = w2"
    by (auto simp: register_def register_bootstrap_def)
  with p1 s2 e2 findPioneer_cong[OF e2]
  show "let root = ?root
        in r = Success (generateToken env (e_id root) username (e_path root))
                        (e_id root) (e_path root) username \<and>
           entity_tbl (db w') = entity_tbl (db w) @ [root] \<and>
           Entity_findPioneer (db w') = Some root \<and>
           (\<exists>s. Secret_findByPath (db w') (''secrets/'' @ secretFile) = Some s \<and>
                s_used_at s = Some (now env))"
    by (simp add: Let_def)
qed

lemma makePioneer_fresh:
  "pc_makePioneer ledger_pathchain (ledger fresh_world) = (Ret (digest 0), root_ledger)"
  by (simp add: ledger_pathchain_def ledger_makePioneer_def fresh_world_def root_ledger_def root_path_def
                Let_def)

lemma getPioneerObj_root:
  "pc_getPioneerObj ledger_pathchain root_ledger (digest 0)
     = Ret (OObj \<lparr>tag = root_path, author = [], ancestor = root_path, used = False\<rparr>)"
  by (simp add: ledger_pathchain_def ledger_getEntityObj_def root_ledger_def)

lemma secretFiles_root:
  "fs_secretFiles (test_env []) root_ledger (digest 0) = Ret (Some [digest 1])"
  by (simp add: test_env_def ledger_secretFiles_def root_ledger_def root_path_def)

text \<open>
  Witness for C4: the registration without a secret in the system after bootstrap, and
  in the empty system.
\<close>

theorem register_without_secret_witness:
  "\<not> Login_usernameExists (db root_world) ''alice'' \<and>
   Entity_findPioneer (db root_world) = Some root_row \<and>
   register (test_env []) [] ''alice'' ''pw'' root_world = (Failure INVALID_SECRET, root_world) \<and>
   \<not> Login_usernameExists (db fresh_world) ''alice'' \<and>
   Entity_findPioneer (db fresh_world) = None \<and>
   pathchain (test_env []) = Some ledger_pathchain \<and>
   pc_makePioneer ledger_pathchain (ledger fresh_world) = (Ret (digest 0), root_ledger) \<and>
   pc_getPioneerObj ledger_pathchain root_ledger (digest 0)
     = Ret (OObj \<lparr>tag = root_path, author = [], ancestor = root_path, used = False\<rparr>) \<and>
   fs_secretFiles (test_env []) root_ledger (digest 0) = Ret (Some [digest 1]) \<and>
   faults (test_env []) = [] \<and>
   fst (register (test_env []) [] ''alice'' ''pw'' fresh_world) = Success ''jwt:alice'' 1 root_path ''alice'' \<and>
   Entity_findPioneer (db (snd (register (test_env []) [] ''alice'' ''pw'' fresh_world))) = Some root_row \<and>
   (\<exists>s. Secret_findByPath (db (snd (register (test_env []) [] ''alice'' ''pw'' fresh_world)))
          (''secrets/'' @ digest 1) = Some s \<and> s_used_at s = Some 1000)"
proof -
  have v: "''alice'' \<noteq> []" "length ''alice'' \<le> 255" "''pw'' \<noteq> []" by simp_all
  have u1: "\<not> Login_usernameExists (db root_world) ''alice''"
    and u0: "\<not> Login_usernameExists (db fresh_world) ''alice''"
    by (simp_all add: Login_usernameExists_def root_world_def fresh_world_def)
  have p1: "Entity_findPioneer (db root_world) = Some root_row"
    and p0: "Entity_findPioneer (db fresh_world) = None"
    by (simp_all add: Entity_findPioneer_def root_world_def fresh_world_def root_row_def)
  have pc: "pathchain (test_env []) = Some ledger_pathchain" "faults (test_env []) = []"
    by (simp_all add: test_env_def)
  have g: "\<And>i p. generateToken (test_env []) i ''alice'' p = ''jwt:alice''"
    "now (test_env []) = 1000" "entity_seq (db fresh_world) = 0"
    by (simp_all add: test_env_def fresh_world_def)
  have r: "root_row = \<lparr>e_id = 1, e_path = root_path, e_ancestor_id = None\<rparr>"
    by (simp add: root_row_def)
  from register_without_secret[OF v u1, of root_row "test_env []", THEN conjunct1] p1
  have a: "register (test_env []) [] ''alice'' ''pw'' root_world = (Failure INVALID_SECRET, root_world)"
    by simp
  from register_without_secret[OF v u0, THEN conjunct2, rule_format,
         of "test_env []" ledger_pathchain "digest 0" root_ledger
            "\<lparr>tag = root_path, author = [], ancestor = root_path, used = False\<rparr>" "digest 1" "[]"
            "fst (register (test_env []) [] ''alice'' ''pw'' fresh_world)"
            "snd (register (test_env []) [] ''alice'' ''pw'' fresh_world)"]
    p0 pc makePioneer_fresh getPioneerObj_root secretFiles_root digest_not_Nil digest_no_error
  have b: "fst (register (test_env []) [] ''alice'' ''pw'' fresh_world) = Success ''jwt:alice'' 1 root_path ''alice'' \<and>
   Entity_findPioneer (db (snd (register (test_env []) [] ''alice'' ''pw'' fresh_world))) = Some root_row \<and>
   (\<exists>s. Secret_findByPath (db (snd (register (test_env []) [] ''alice'' ''pw'' fresh_world)))
          (''secrets/'' @ digest 1) = Some s \<and> s_used_at s = Some 1000)"
    by (simp add: Let_def g r)
  from u1 p1 a u0 p0 pc makePioneer_fresh getPioneerObj_root secretFiles_root b
  show ?thesis by blast
qed

section \<open>initializeSystem is idempotent\<close>

lemma initializeSystem_root_count:
  assumes "initializeSystem env w = (r, w')" "root_count (db w) \<le> 1"
  shows "root_count (db w') \<le> 1"
proof (cases r)
  case (Throw m)
  with assms initializeSystem_throws[of env w m w'] show ?thesis by simp
next
  case (Ret ir)
  with assms(1) have i: "initializeSystem env w = (Ret ir, w')" by simp
  show ?thesis
  proof (cases "init_isNew ir")
    case True
    with initializeSystem_returns[OF i] have "root_count (db w) = 0"
      "e_ancestor_id (init_pioneer ir) = None" "entity_tbl (db w') = entity_tbl (db w) @ [init_pioneer ir]"
      by (simp_all add: findPioneer_None_iff)
    then show ?thesis by (simp add: root_count_def)
  next
    case False
    with initializeSystem_returns[OF i] assms(2) show ?thesis by simp
  qed
qed

lemma run_initialize_root_count:
  "root_count (db w) \<le> 1 \<Longrightarrow> root_count (db (snd (run_initialize envs w))) \<le> 1"
proof (induction envs arbitrary: w)
  case Nil
  then show ?case by simp
next
  case (Cons env envs)
  obtain r w1 where i: "initializeSystem env w = (r, w1)" by (cases "initializeSystem env w")
  from initializeSystem_root_count[OF i Cons.prems] have "root_count (db w1) \<le> 1" .
  from Cons.IH[OF this] i show ?case by (simp add: Let_def case_prod_beta)
qed

lemma run_initialize_existing:
  assumes "Entity_findPioneer (db w) = Some p"
  shows "db (snd (run_initialize envs w)) = db w \<and> ledger (snd (run_initialize envs w)) = ledger w \<and>
         list_all (returns_existing p) (fst (run_initialize envs w)) \<and>
         (\<exists>evs. trace (snd (run_initialize envs w)) = trace w @ evs \<and> list_all is_listing evs)"
  using assms
proof (induction envs arbitrary: w)
  case Nil
  then show ?case by simp
next
  case (Cons env envs)
  let ?w1 = "log (FsSecretFiles (last_segment (e_path p))) w"
  from initializeSystem_existing[OF Cons.prems, of env] obtain h where
    i: "initializeSystem env w =
          (Ret \<lparr>init_pioneer = p, init_secret = None, init_isNew = False, init_secretHash = h\<rparr>, ?w1)"
    by blast
  have "Entity_findPioneer (db ?w1) = Some p" using Cons.prems by (simp add: log_def)
  from Cons.IH[OF this] i show ?case
    by (auto simp: Let_def case_prod_beta log_def returns_existing_def is_listing_def)
qed

text \<open>
  Claim C6. However often \<open>initializeSystem\<close> is called in sequence, a database with at most
  one root row (a row with null ancestor) keeps at most one. And once a call has returned,
  every later call returns that same pioneer row with \<open>isNew\<close> false and no secret, and
  neither the database nor the ledger changes: the later calls only list the pioneer's
  secrets directory.
\<close>

theorem initializeSystem_idempotent:
  "(root_count (db w) \<le> 1 \<longrightarrow> root_count (db (snd (run_initialize envs w))) \<le> 1) \<and>
   (initializeSystem env w = (Ret ir, w1) \<longrightarrow>
      root_count (db w) \<le> 1 \<longrightarrow>
      root_count (db w1) = 1 \<and>
      list_all (returns_existing (init_pioneer ir)) (fst (run_initialize envs w1)) \<and>
      db (snd (run_initialize envs w1)) = db w1 \<and>
      ledger (snd (run_initialize envs w1)) = ledger w1 \<and>
      list_all is_listing (new_events w1 (snd (run_initialize envs w1))))"
proof (intro conjI impI)
  assume "root_count (db w) \<le> 1"
  thus "root_count (db (snd (run_initialize envs w))) \<le> 1" by (rule run_initialize_root_count)
next
  assume i: "initializeSystem env w = (Ret ir, w1)" and c: "root_count (db w) \<le> 1"
  from initializeSystem_returns[OF i] have p: "Entity_findPioneer (db w1) = Some (init_pioneer ir)"
    by simp
  hence "root_count (db w1) \<noteq> 0" using findPioneer_None_iff[of "db w1"] by simp
  with initializeSystem_root_count[OF i c] show "root_count (db w1) = 1" by simp
  from run_initialize_existing[OF p, of envs]
  show "list_all (returns_existing (init_pioneer ir)) (fst (run_initialize envs w1))"
    "db (snd (run_initialize envs w1)) = db w1"
    "ledger (snd (run_initialize envs w1)) = ledger w1"
    "list_all is_listing (new_events w1 (snd (run_initialize envs w1)))"
    by (auto simp: new_events_def)
qed

text \<open>Witness for C6: three calls in the empty system.\<close>

theorem initializeSystem_idempotent_witness:
  "root_count (db fresh_world) \<le> 1 \<and>
   initializeSystem (test_env []) fresh_world =
     (Ret \<lparr>init_pioneer = root_row, init_secret = Some root_secret_row, init_isNew = True,
           init_secretHash = Some (digest 1)\<rparr>,
      root_world\<lparr>trace := [PcMakePioneer, PcGetPioneerObj (digest 0), FsSecretFiles (digest 0),
                            PcGetSecretObj (digest 1) (''entities/'' @ digest 0)]\<rparr>) \<and>
   root_count (db (snd (run_initialize [test_env [], test_env [], test_env []] fresh_world))) \<le> 1 \<and>
   list_all (returns_existing root_row)
     (fst (run_initialize [test_env [], test_env []]
        (root_world\<lparr>trace := [PcMakePioneer, PcGetPioneerObj (digest 0), FsSecretFiles (digest 0),
                              PcGetSecretObj (digest 1) (''entities/'' @ digest 0)]\<rparr>))) \<and>
   db (snd (run_initialize [test_env [], test_env []]
        (root_world\<lparr>trace := [PcMakePioneer, PcGetPioneerObj (digest 0), FsSecretFiles (digest 0),
                              PcGetSecretObj (digest 1) (''entities/'' @ digest 0)]\<rparr>))) = db root_world"
proof -
  have c: "root_count (db fresh_world) \<le> 1" by (simp add: root_count_def fresh_world_def)
  from initializeSystem_idempotent[where w = fresh_world and envs = "[test_env [], test_env [], test_env []]",
         THEN conjunct1] c
  have 1: "root_count (db (snd (run_initialize [test_env [], test_env [], test_env []] fresh_world))) \<le> 1"
    by blast
  from initializeSystem_idempotent[where w = fresh_world and env = "test_env []"
           and envs = "[test_env [], test_env []]", THEN conjunct2, rule_format, OF init_fresh c]
  have 2: "list_all (returns_existing root_row)
     (fst (run_initialize [test_env [], test_env []]
        (root_world\<lparr>trace := [PcMakePioneer, PcGetPioneerObj (digest 0), FsSecretFiles (digest 0),
                              PcGetSecretObj (digest 1) (''entities/'' @ digest 0)]\<rparr>))) \<and>
   db (snd (run_initialize [test_env [], test_env []]
        (root_world\<lparr>trace := [PcMakePioneer, PcGetPioneerObj (digest 0), FsSecretFiles (digest 0),
                              PcGetSecretObj (digest 1) (''entities/'' @ digest 0)]\<rparr>))) = db root_world"
    by simp
  from c init_fresh 1 2 show ?thesis by blast
qed

section \<open>Resolving the ancestor\<close>

lemma ledger_entity_object_exact:
  assumes "ledger_entity_object env (extractHash path) path w = (r, w')"
  shows "case entity_record env (ledger w) path of Some x \<Rightarrow> r = OObj x | None \<Rightarrow> \<not> is_object r"
  using assms unfolding ledger_entity_object_def entity_record_def getEntity_def getObject_def
  by (auto simp: log_def is_object_def is_string_def Let_def
           split: option.splits outcome.splits obj_res.splits if_splits prod.splits)

lemma ledger_ancestor_exact:
  assumes "ledger_ancestor env entity w = (r, w')"
  shows "r = ledger_ancestor_row env w entity \<and> looks_up w w'"
proof -
  obtain ob w1 where o: "ledger_entity_object env (extractHash (e_path entity)) (e_path entity) w = (ob, w1)"
    by (cases "ledger_entity_object env (extractHash (e_path entity)) (e_path entity) w")
  from ledger_entity_object_looks_up[OF o] have l: "looks_up w w1" .
  hence "db w1 = db w" by (simp add: looks_up_def)
  with assms o ledger_entity_object_exact[OF o] l show ?thesis
    unfolding ledger_ancestor_def ledger_ancestor_row_def Let_def
    by (auto simp: is_object_def split: option.splits obj_res.splits)
qed

lemma stored_ancestor_id:
  "stored_ancestor d entity = Some a \<Longrightarrow> e_id a \<noteq> 0 \<and> Entity_findByPk d (e_id a) = Some a"
  unfolding stored_ancestor_def Entity_findByPk_def
  by (auto split: option.splits if_splits dest: find_Some_iff[THEN iffD1])

lemma findOne_path_id:
  "Entity_findOne_path d p = Some a \<Longrightarrow> \<exists>b. Entity_findByPk d (e_id a) = Some b \<and> e_id b = e_id a"
proof -
  assume "Entity_findOne_path d p = Some a"
  hence "a \<in> set (entity_tbl d)"
    unfolding Entity_findOne_path_def by (auto simp: find_Some_iff)
  hence "find (\<lambda>r. e_id r = e_id a) (entity_tbl d) \<noteq> None"
    by (auto simp: find_None_iff)
  then obtain b where "find (\<lambda>r. e_id r = e_id a) (entity_tbl d) = Some b" by blast
  moreover from this have "e_id b = e_id a" by (auto simp: find_Some_iff)
  ultimately show ?thesis by (simp add: Entity_findByPk_def)
qed

text \<open>
  Claim C7, amended. For an existing entity row, \<open>getAncestorInfo\<close> only reads: the
  database and the ledger are as before, the row's ancestor link included. When the stored
  link is set and its row exists, the answer is that row with its login (without the
  password and the secret). Otherwise the
  ancestor is the row whose path is the ancestor pointer of the entity's ledger record:
  the answer is \<open>ANCESTOR_NOT_FOUND\<close> exactly when there is no such row, and else it is
  about that row.
\<close>

theorem getAncestorInfo_resolution:
  assumes run: "getAncestorInfo env entityId w = (r, w')"
    and id: "entityId \<noteq> 0"
    and row: "Entity_findByPk (db w) entityId = Some entity"
  shows "looks_up w w' \<and>
         (case stored_ancestor (db w) entity of
            Some a \<Rightarrow> \<exists>x. r = Info a (map_option login_summary (Login_findOne_entity (db w) (e_id a))) x
          | None \<Rightarrow>
              (case ledger_ancestor_row env w entity of
                 None \<Rightarrow> r = InfoError ANCESTOR_NOT_FOUND
               | Some a \<Rightarrow>
                   (case r of
                      Info e l x \<Rightarrow> e_id e = e_id a
                    | InfoError c \<Rightarrow> c = INVALID_REQUEST \<and> e_id a = 0)))"
proof (cases "stored_ancestor (db w) entity")
  case (Some a)
  obtain ob w2 where o: "ledger_entity_object env (strip_entities_prefix (e_path a)) (e_path a) w = (ob, w2)"
    by (cases "ledger_entity_object env (strip_entities_prefix (e_path a)) (e_path a) w")
  from ledger_entity_object_looks_up[OF o] have l: "looks_up w w2" .
  hence d: "db w2 = db w" by (simp add: looks_up_def)
  from stored_ancestor_id[OF Some] have f: "fetchEntityInfo (db w) (e_id a)
      = Info a (map_option login_summary (Login_findOne_entity (db w) (e_id a))) None"
    by (simp add: fetchEntityInfo_def)
  from run id row Some o d f l show ?thesis
    unfolding getAncestorInfo_def by (auto simp: Let_def)
next
  case None
  obtain ra w1 where la: "ledger_ancestor env entity w = (ra, w1)"
    by (cases "ledger_ancestor env entity w")
  from ledger_ancestor_exact[OF la] have ra: "ra = ledger_ancestor_row env w entity" and l1: "looks_up w w1"
    by simp_all
  show ?thesis
  proof (cases ra)
    case n: None
    with run id row None la ra l1 show ?thesis
      unfolding getAncestorInfo_def by (auto simp: Let_def)
  next
    case (Some a)
    obtain ob w2 where o: "ledger_entity_object env (strip_entities_prefix (e_path a)) (e_path a) w1 = (ob, w2)"
      by (cases "ledger_entity_object env (strip_entities_prefix (e_path a)) (e_path a) w1")
    from ledger_entity_object_looks_up[OF o] l1 have l: "looks_up w w2" by (rule looks_up_trans[rotated])
    hence d: "db w2 = db w" by (simp add: looks_up_def)
    from Some ra have "Entity_findOne_path (db w) (ancestor (the (entity_record env (ledger w) (e_path entity)))) = Some a"
      by (auto simp: ledger_ancestor_row_def split: option.splits if_splits)
    from findOne_path_id[OF this] obtain b where b: "Entity_findByPk (db w) (e_id a) = Some b" "e_id b = e_id a"
      by blast
    have r: "r = (case fetchEntityInfo (db w) (e_id a) of
                    InfoError c \<Rightarrow> InfoError c
                  | Info e l x \<Rightarrow> Info e l (case ob of OObj y \<Rightarrow> Some y | _ \<Rightarrow> None))"
      and w': "w' = w2"
      using run id row None la Some o d
      unfolding getAncestorInfo_def by (auto simp: Let_def split: info_result.splits)
    show ?thesis
    proof (cases "e_id a = 0")
      case True
      hence "fetchEntityInfo (db w) (e_id a) = InfoError INVALID_REQUEST"
        by (simp add: fetchEntityInfo_def)
      with r w' l None Some ra True show ?thesis by simp
    next
      case False
      with b have "fetchEntityInfo (db w) (e_id a) = Info b (map_option login_summary (Login_findOne_entity (db w) (e_id a))) None"
        by (simp add: fetchEntityInfo_def)
      with r w' l None Some ra b show ?thesis by simp
    qed
  qed
qed

lemma extractHash_entity_path: "extractHash (''entities/'' @ digest k) = digest k"
  using last_segment_path[of "digest k" "''entities''"] digest_no_slash[of k]
  by (simp add: extractHash_def)

lemma strip_entity_path: "strip_entities_prefix (''entities/'' @ digest k) = digest k"
  by (simp add: strip_entities_prefix_def)

lemmas entity_path_simps = extractHash_entity_path[simplified] strip_entity_path[simplified]

lemmas ancestor_defs =
  getAncestorInfo_def stored_ancestor_def ledger_ancestor_def ledger_entity_object_def fetchEntityInfo_def
  Entity_findByPk_def Entity_findOne_path_def Login_findOne_entity_def getEntity_def getObject_def
  is_object_def is_string_def log_def

lemma ancestor_of_unlinked:
  "getAncestorInfo (test_env []) 2 unlinked_world =
     (Info root_row None (Some root_object),
      unlinked_world\<lparr>trace := [PcGetEntityObj (digest 2) [], PcGetEntityObj (digest 0) []]\<rparr>)"
  by (simp add: ancestor_defs unlinked_world_def unlinked_row_def alice_world_def root_object_def
                ledger_defs digest_simps entity_path_simps Let_def)

text \<open>
  Counterexample to C7 as stated: the row's ancestor link is absent, the ancestor is
  found through the ledger, and after the call the row is as it was, its link still
  absent.
\<close>

theorem no_repair_counterexample:
  "Entity_findByPk (db unlinked_world) 2 = Some unlinked_row \<and>
   e_ancestor_id unlinked_row = None \<and>
   fst (getAncestorInfo (test_env []) 2 unlinked_world) = Info root_row None (Some root_object) \<and>
   Entity_findByPk (db (snd (getAncestorInfo (test_env []) 2 unlinked_world))) 2 = Some unlinked_row"
  unfolding ancestor_of_unlinked
  by (simp add: Entity_findByPk_def unlinked_world_def unlinked_row_def alice_world_def root_row_def)

text \<open>
  Witness for the amended C7: the ancestor of Alice's row, by its stored link and, in the
  world where that link is missing, by the ledger.
\<close>

theorem getAncestorInfo_resolution_witness:
  "Entity_findByPk (db alice_world) 2
     = Some \<lparr>e_id = 2, e_path = ''entities/'' @ digest 2, e_ancestor_id = Some 1\<rparr> \<and>
   stored_ancestor (db alice_world) \<lparr>e_id = 2, e_path = ''entities/'' @ digest 2, e_ancestor_id = Some 1\<rparr>
     = Some root_row \<and>
   (\<exists>x. fst (getAncestorInfo (test_env []) 2 alice_world) = Info root_row None x) \<and>
   db (snd (getAncestorInfo (test_env []) 2 alice_world)) = db alice_world \<and>
   Entity_findByPk (db unlinked_world) 2 = Some unlinked_row \<and>
   stored_ancestor (db unlinked_world) unlinked_row = None \<and>
   ledger_ancestor_row (test_env []) unlinked_world unlinked_row = Some root_row \<and>
   db (snd (getAncestorInfo (test_env []) 2 unlinked_world)) = db unlinked_world"
proof -
  let ?row = "\<lparr>e_id = 2, e_path = ''entities/'' @ digest 2, e_ancestor_id = Some 1\<rparr>"
  have r: "Entity_findByPk (db alice_world) 2 = Some ?row"
    by (simp add: Entity_findByPk_def alice_world_def root_row_def)
  have s: "stored_ancestor (db alice_world) ?row = Some root_row"
    by (simp add: stored_ancestor_def Entity_findByPk_def alice_world_def root_row_def)
  have l: "Login_findOne_entity (db alice_world) (e_id root_row) = None"
    by (simp add: Login_findOne_entity_def alice_world_def root_row_def)
  have r2: "Entity_findByPk (db unlinked_world) 2 = Some unlinked_row"
    by (simp add: Entity_findByPk_def unlinked_world_def unlinked_row_def root_row_def)
  have s2: "stored_ancestor (db unlinked_world) unlinked_row = None"
    by (simp add: stored_ancestor_def unlinked_row_def)
  have a2: "ledger_ancestor_row (test_env []) unlinked_world unlinked_row = Some root_row"
    by (simp add: ledger_ancestor_row_def entity_record_def unlinked_world_def unlinked_row_def
                  alice_world_def ledger_defs digest_simps entity_path_simps
                  Entity_findOne_path_def)
  from getAncestorInfo_resolution[OF surjective_pairing _ r, of "test_env []"] s l
  have 1: "(\<exists>x. fst (getAncestorInfo (test_env []) 2 alice_world) = Info root_row None x) \<and>
           db (snd (getAncestorInfo (test_env []) 2 alice_world)) = db alice_world"
    by (simp add: looks_up_def)
  from getAncestorInfo_resolution[OF surjective_pairing _ r2, of "test_env []"]
  have 2: "db (snd (getAncestorInfo (test_env []) 2 unlinked_world)) = db unlinked_world"
    by (simp add: looks_up_def)
  from r s 1 r2 s2 a2 2 show ?thesis by blast
qed

end
